theory Spec2Isabelle
  imports Main "HOL-Library.AList"
begin

section \<open>Python values, exceptions and string primitives\<close>

text \<open>
  Page text is modelled as ASCII: a \<^typ>\<open>string\<close> is the list of the code points of a
  Python \<open>str\<close>, every one below 128. The exceptions that the scraper distinguishes are
  \<open>IndexError\<close> (caught on its own in \<open>download.py\<close>) and everything else.
\<close>

datatype pyerr = IndexError | ValueError | KeyError | TypeError | ConnectionError | DatabaseError

datatype pyval = PNone | PStr string | PInt int

type_synonym dict = "(string \<times> pyval) list"

definition bind_err :: "pyerr + 'a \<Rightarrow> ('a \<Rightarrow> pyerr + 'b) \<Rightarrow> pyerr + 'b" where
  "bind_err m f = (case m of Inl e \<Rightarrow> Inl e | Inr v \<Rightarrow> f v)"

text \<open>\<open>xs[0]\<close>, \<open>xs[1]\<close> and \<open>xs[i]\<close> for a non-negative index.\<close>

definition index_at :: "'a list \<Rightarrow> nat \<Rightarrow> pyerr + 'a" where
  "index_at xs i = (if i < length xs then Inr (xs ! i) else Inl IndexError)"

text \<open>\<open>tag['href']\<close>: the attribute, or \<open>KeyError\<close> when the tag has none.\<close>

definition attr_of :: "string option \<Rightarrow> pyerr + string" where
  "attr_of a = (case a of None \<Rightarrow> Inl KeyError | Some v \<Rightarrow> Inr v)"

definition is_digit :: "char \<Rightarrow> bool" where
  "is_digit c = (let n = (of_char c :: nat) in 48 \<le> n \<and> n \<le> 57)"

definition is_upper :: "char \<Rightarrow> bool" where
  "is_upper c = (let n = (of_char c :: nat) in 65 \<le> n \<and> n \<le> 90)"

definition is_lower :: "char \<Rightarrow> bool" where
  "is_lower c = (let n = (of_char c :: nat) in 97 \<le> n \<and> n \<le> 122)"

text \<open>The character class \<open>[a-zA-Z0-9]\<close> of the title tokenizer.\<close>

definition is_alnum :: "char \<Rightarrow> bool" where
  "is_alnum c = (is_lower c \<or> is_upper c \<or> is_digit c)"

text \<open>\<open>str.isspace\<close> on ASCII: tab, LF, VT, FF, CR, the separators 28 to 31, space.\<close>

definition is_space :: "char \<Rightarrow> bool" where
  "is_space c = (let n = (of_char c :: nat) in (9 \<le> n \<and> n \<le> 13) \<or> (28 \<le> n \<and> n \<le> 32))"

definition lower_char :: "char \<Rightarrow> char" where
  "lower_char c = (if is_upper c then char_of (of_char c + (32::nat)) else c)"

definition upper_char :: "char \<Rightarrow> char" where
  "upper_char c = (if is_lower c then char_of (of_char c - (32::nat)) else c)"

definition lower :: "string \<Rightarrow> string" where
  "lower s = map lower_char s"

definition upper :: "string \<Rightarrow> string" where
  "upper s = map upper_char s"

definition strip :: "string \<Rightarrow> string" where
  "strip s = rev (dropWhile is_space (rev (dropWhile is_space s)))"

text \<open>\<open>s.split(sep)\<close> for a one-character separator: never empty, one more piece than
  there are separators.\<close>

fun split_on :: "char \<Rightarrow> string \<Rightarrow> string list" where
  "split_on sep [] = [[]]"
| "split_on sep (c # cs) =
     (if c = sep then [] # split_on sep cs
      else (case split_on sep cs of
              [] \<Rightarrow> [[c]]
            | t # ts \<Rightarrow> (c # t) # ts))"

text \<open>\<open>s.split(sep)\<close> for a separator of one or more characters, scanning left to right.\<close>

function split_str :: "string \<Rightarrow> string \<Rightarrow> string list" where
  "split_str sep [] = [[]]"
| "split_str sep (c # cs) =
     (if sep \<noteq> [] \<and> take (length sep) (c # cs) = sep
      then [] # split_str sep (drop (length sep) (c # cs))
      else (case split_str sep cs of
              [] \<Rightarrow> [[c]]
            | t # ts \<Rightarrow> (c # t) # ts))"
  by pat_completeness auto
termination
  by (relation "measure (\<lambda>(sep, s). length s)") auto

text \<open>\<open>sub in s\<close> for strings.\<close>

fun contains_str :: "string \<Rightarrow> string \<Rightarrow> bool" where
  "contains_str sub [] = (sub = [])"
| "contains_str sub (c # cs) = (take (length sub) (c # cs) = sub \<or> contains_str sub cs)"

text \<open>\<open>' '.join(parts)\<close>.\<close>

fun join_space :: "string list \<Rightarrow> string" where
  "join_space [] = []"
| "join_space [p] = p"
| "join_space (p # q # ps) = p @ CHR '' '' # join_space (q # ps)"

definition digit_val :: "char \<Rightarrow> nat" where
  "digit_val c = of_char c - 48"

definition digits_val :: "string \<Rightarrow> nat" where
  "digits_val ds = foldl (\<lambda>acc c. 10 * acc + digit_val c) 0 ds"

text \<open>
  The literals \<open>int(s)\<close> accepts in base 10: digits, with single underscores allowed
  between two digits.
\<close>

fun int_body_ok :: "string \<Rightarrow> bool" where
  "int_body_ok [] = False"
| "int_body_ok [c] = is_digit c"
| "int_body_ok (c # d # cs) =
     (if is_digit c then
        (if d = CHR ''_'' then (cs \<noteq> [] \<and> is_digit (hd cs) \<and> int_body_ok cs)
         else int_body_ok (d # cs))
      else False)"

text \<open>
  \<open>int(s)\<close> on an ASCII string: leading and trailing tab, LF, VT, FF, CR and space are dropped
  (not the separators 28 to 31, which \<open>str.strip\<close> drops), one sign is allowed, and
  anything else (a decimal point, an empty string) raises \<open>ValueError\<close>. So does a
  literal of more than \<open>sys.int_max_str_digits\<close> digits, 4300 unless configured
  otherwise; the sign and the underscores do not count, leading zeros do.
\<close>

definition is_int_space :: "char \<Rightarrow> bool" where
  "is_int_space c = (let n = (of_char c :: nat) in (9 \<le> n \<and> n \<le> 13) \<or> n = 32)"

definition int_max_str_digits :: nat where
  "int_max_str_digits = 4300"

definition py_int :: "string \<Rightarrow> pyerr + int" where
  "py_int s =
     (case rev (dropWhile is_int_space (rev (dropWhile is_int_space s))) of
        [] \<Rightarrow> Inl ValueError
      | c # cs \<Rightarrow>
          (let neg = (c = CHR ''-'');
               body = (if c = CHR ''-'' \<or> c = CHR ''+'' then cs else c # cs);
               digits = filter (\<lambda>x. x \<noteq> CHR ''_'') body
           in if int_body_ok body \<and> length digits \<le> int_max_str_digits
              then Inr ((if neg then - 1 else 1) * int (digits_val digits))
              else Inl ValueError))"

definition endswith_k :: "string \<Rightarrow> bool" where
  "endswith_k s = (s \<noteq> [] \<and> last s = CHR ''k'')"

text \<open>\<open>s.rstrip('k')\<close> removes every trailing \<open>k\<close>.\<close>

definition rstrip_k :: "string \<Rightarrow> string" where
  "rstrip_k s = rev (dropWhile (\<lambda>c. c = CHR ''k'') (rev s))"

section \<open>Detail-page extractors (\<open>src/sitelogic/NatureArticle.py\<close>)\<close>

text \<open>
  A parsed detail page is represented by what the CSS selectors of the extractors
  return on it, in document order.
\<close>

record article_page =
  bib_values :: "string list"
    \<comment> \<open>stripped texts of \<open>span[class="c-bibliographic-information__value"]\<close>\<close>
  metrics_wrappers :: "string list list"
    \<comment> \<open>per \<open>.c-article-metrics-bar__wrapper\<close>: the texts of its count paragraphs\<close>
  bib_items :: "string list"
    \<comment> \<open>texts of \<open>li[class="c-bibliographic-information__list-item"]\<close>\<close>
  info_details :: "string list list"
    \<comment> \<open>per \<open>p[class="c-article-info-details"]\<close>: the texts of its journal links\<close>
  author_lists :: "string list list"
    \<comment> \<open>per \<open>.c-article-author-list\<close>: the stripped texts of its author-name links\<close>
  author_items :: "string option list list"
    \<comment> \<open>per \<open>.c-article-author-list__item\<close>: the \<open>href\<close> of each of its \<open>js-orcid\<close> links\<close>

text \<open>The numeric parse of one count string, lines 88 to 92 of \<open>metrics\<close>.\<close>

definition metrics_num :: "string \<Rightarrow> pyerr + int" where
  "metrics_num num_txt =
     (if endswith_k num_txt
      then bind_err (py_int (rstrip_k num_txt)) (\<lambda>n. Inr (n * 1000))
      else py_int num_txt)"

fun metrics_loop :: "string list \<Rightarrow> dict \<Rightarrow> pyerr + dict" where
  "metrics_loop [] metrics_data = Inr metrics_data"
| "metrics_loop (li # lis) metrics_data =
     (let txt_ls = split_on CHR '' '' li in
      bind_err (index_at txt_ls 0) (\<lambda>num_txt.
      bind_err (metrics_num num_txt) (\<lambda>num_int.
      bind_err (index_at txt_ls 1) (\<lambda>key.
        metrics_loop lis (AList.update (upper key) (PInt num_int) metrics_data)))))"

definition metrics :: "article_page \<Rightarrow> pyerr + dict" where
  "metrics soup = bind_err (index_at (metrics_wrappers soup) 0) (\<lambda>w. metrics_loop w [])"

subsection \<open>\<open>dateList\<close>: \<open>datetime.strptime(date_str, "%d %B %Y")\<close> and \<open>strftime("%Y-%m-%d")\<close>\<close>

text \<open>
  \<open>strptime\<close> compiles the format into the regular expression
  \<^verbatim>\<open>(?P<d>3[0-1]|[1-2]\d|0[1-9]|[1-9]| [1-9])\s+(?P<B>january|...|december)\s+(?P<Y>\d\d\d\d)\<close>,
  matched at the start of the string ignoring case; the whole string has to be consumed.
  \<open>day_alts\<close> lists the ways the day group can match, in the order of its alternatives,
  each with the day it denotes and the text left over.
\<close>

definition day_alts :: "string \<Rightarrow> (nat \<times> string) list" where
  "day_alts s =
     (case s of
        a # b # r \<Rightarrow>
          (if a = CHR ''3'' \<and> (b = CHR ''0'' \<or> b = CHR ''1'') then [(digits_val [a, b], r)] else [])
          @ (if (a = CHR ''1'' \<or> a = CHR ''2'') \<and> is_digit b then [(digits_val [a, b], r)] else [])
          @ (if a = CHR ''0'' \<and> is_digit b \<and> b \<noteq> CHR ''0'' then [(digits_val [a, b], r)] else [])
      | _ \<Rightarrow> [])
     @ (case s of
          a # r \<Rightarrow> (if is_digit a \<and> a \<noteq> CHR ''0'' then [(digits_val [a], r)] else [])
        | [] \<Rightarrow> [])
     @ (case s of
          a # b # r \<Rightarrow>
            (if a = CHR '' '' \<and> is_digit b \<and> b \<noteq> CHR ''0'' then [(digits_val [b], r)] else [])
        | _ \<Rightarrow> [])"

text \<open>\<open>\s+\<close>: one or more whitespace characters. What follows it in the pattern never
  starts with whitespace, so the longest match is the only one that can succeed.\<close>

definition skip_spaces1 :: "string \<Rightarrow> string option" where
  "skip_spaces1 s =
     (case s of
        [] \<Rightarrow> None
      | c # cs \<Rightarrow> (if is_space c then Some (dropWhile is_space cs) else None))"

definition month_names :: "string list" where
  "month_names = [''january'', ''february'', ''march'', ''april'', ''may'', ''june'', ''july'',
     ''august'', ''september'', ''october'', ''november'', ''december'']"

fun match_month_from :: "nat \<Rightarrow> string list \<Rightarrow> string \<Rightarrow> (nat \<times> string) option" where
  "match_month_from i [] s = None"
| "match_month_from i (n # ns) s =
     (if length n \<le> length s \<and> lower (take (length n) s) = n
      then Some (i, drop (length n) s)
      else match_month_from (Suc i) ns s)"

definition match_month :: "string \<Rightarrow> (nat \<times> string) option" where
  "match_month s = match_month_from 1 month_names s"

text \<open>\<open>\d\d\d\d\<close> and then the end of the string (anything left over is
  ``unconverted data remains'', a \<open>ValueError\<close> as well).\<close>

definition match_year :: "string \<Rightarrow> nat option" where
  "match_year s = (if length s = 4 \<and> list_all is_digit s then Some (digits_val s) else None)"

definition after_day :: "string \<Rightarrow> (nat \<times> nat) option" where
  "after_day r =
     (case skip_spaces1 r of
        None \<Rightarrow> None
      | Some r1 \<Rightarrow>
          (case match_month r1 of
             None \<Rightarrow> None
           | Some (m, r2) \<Rightarrow>
               (case skip_spaces1 r2 of
                  None \<Rightarrow> None
                | Some r3 \<Rightarrow>
                    (case match_year r3 of
                       None \<Rightarrow> None
                     | Some y \<Rightarrow> Some (m, y)))))"

text \<open>Backtracking over the alternatives of the day group: the first one after which the
  rest of the pattern matches.\<close>

fun first_match :: "(nat \<times> string) list \<Rightarrow> (nat \<times> nat \<times> nat) option" where
  "first_match [] = None"
| "first_match ((d, r) # alts) =
     (case after_day r of
        Some (m, y) \<Rightarrow> Some (y, m, d)
      | None \<Rightarrow> first_match alts)"

definition is_leap :: "nat \<Rightarrow> bool" where
  "is_leap y = (y mod 4 = 0 \<and> (y mod 100 \<noteq> 0 \<or> y mod 400 = 0))"

definition days_in_month :: "nat \<Rightarrow> nat \<Rightarrow> nat" where
  "days_in_month y m =
     (if m = 2 then (if is_leap y then 29 else 28)
      else if m = 4 \<or> m = 6 \<or> m = 9 \<or> m = 11 then 30 else 31)"

text \<open>The parsed fields make a \<open>datetime\<close> only when the year is at least 1 and the day
  exists in that month; otherwise \<open>ValueError\<close>. The result is (year, month, day).\<close>

definition strptime_dBY :: "string \<Rightarrow> pyerr + (nat \<times> nat \<times> nat)" where
  "strptime_dBY date_str =
     (case first_match (day_alts date_str) of
        None \<Rightarrow> Inl ValueError
      | Some (y, m, d) \<Rightarrow>
          (if 1 \<le> y \<and> d \<le> days_in_month y m then Inr (y, m, d) else Inl ValueError))"

definition digit_char :: "nat \<Rightarrow> char" where
  "digit_char n = ''0123456789'' ! (n mod 10)"

definition dec2 :: "nat \<Rightarrow> string" where
  "dec2 n = [digit_char (n div 10), digit_char n]"

definition dec4 :: "nat \<Rightarrow> string" where
  "dec4 n = [digit_char (n div 1000), digit_char (n div 100), digit_char (n div 10), digit_char n]"

text \<open>The decimal numeral of a number, without padding.\<close>

fun dec :: "nat \<Rightarrow> string" where
  "dec n = (if n < 10 then [digit_char n] else dec (n div 10) @ [digit_char n])"

declare dec.simps [simp del]

text \<open>\<open>strftime("%Y-%m-%d")\<close>. Month and day are padded to two digits. The year is
  printed by the C library's \<open>%Y\<close>, which does not pad: a year below 1000 comes out with
  fewer than four digits (\<open>999-03-14\<close>).\<close>

definition strftime_Ymd :: "nat \<times> nat \<times> nat \<Rightarrow> string" where
  "strftime_Ymd date_obj =
     (case date_obj of (y, m, d) \<Rightarrow> dec y @ ''-'' @ dec2 m @ ''-'' @ dec2 d)"

text \<open>Lines 113 and 114 of \<open>dateList\<close>: the normalisation of one date string.\<close>

definition normalize_date :: "string \<Rightarrow> pyerr + string" where
  "normalize_date date_str =
     bind_err (strptime_dBY date_str) (\<lambda>date_obj. Inr (strftime_Ymd date_obj))"

definition fields_desired :: "string list" where
  "fields_desired = [''Received'', ''Accepted'', ''Published'']"

fun dateList_loop :: "string list \<Rightarrow> dict \<Rightarrow> pyerr + dict" where
  "dateList_loop [] date_data = Inr date_data"
| "dateList_loop (li # lis) date_data =
     (let txt_ls = split_on CHR '':'' li in
      bind_err (index_at txt_ls 0) (\<lambda>field.
        if field \<in> set fields_desired
        then bind_err (index_at txt_ls 1) (\<lambda>t.
             bind_err (normalize_date (strip t)) (\<lambda>formatted_date.
               dateList_loop lis (AList.update (upper field) (PStr formatted_date) date_data)))
        else dateList_loop lis date_data))"

definition dateList :: "article_page \<Rightarrow> pyerr + dict" where
  "dateList soup = dateList_loop (bib_items soup) []"

text \<open>The English month names as the site writes them, for month numbers 1 to 12.\<close>

definition month_name :: "nat \<Rightarrow> string" where
  "month_name m = (case month_names ! (m - 1) of [] \<Rightarrow> [] | c # cs \<Rightarrow> upper_char c # cs)"

text \<open>\<open>xs[-1]\<close>.\<close>

definition index_last :: "'a list \<Rightarrow> pyerr + 'a" where
  "index_last xs = (if xs = [] then Inl IndexError else Inr (last xs))"

text \<open>\<open>d[k]\<close> on a dict, and \<open>d.update(other)\<close>.\<close>

definition dict_get :: "dict \<Rightarrow> string \<Rightarrow> pyerr + pyval" where
  "dict_get d k = (case map_of d k of None \<Rightarrow> Inl KeyError | Some v \<Rightarrow> Inr v)"

definition dict_update :: "dict \<Rightarrow> dict \<Rightarrow> dict" where
  "dict_update d other = foldl (\<lambda>acc kv. AList.update (fst kv) (snd kv) acc) d other"

subsection \<open>\<open>authors\<close>, \<open>orcid_id\<close>, \<open>doi\<close>, \<open>journal\<close>\<close>

definition natArt_sl_authors :: "article_page \<Rightarrow> pyerr + string list" where
  "natArt_sl_authors soup = index_at (author_lists soup) 0"

fun orcid_id_loop :: "string option list list \<Rightarrow> string option list \<Rightarrow> pyerr + string option list" where
  "orcid_id_loop [] ret = Inr ret"
| "orcid_id_loop (js_orcid # items) ret =
     (if length js_orcid > 0
      then bind_err (index_at js_orcid 0) (\<lambda>a.
           bind_err (attr_of a) (\<lambda>href.
           bind_err (index_last (split_str ''orcid.org/'' href)) (\<lambda>oid.
             orcid_id_loop items (ret @ [Some oid]))))
      else orcid_id_loop items (ret @ [None]))"

definition orcid_id :: "article_page \<Rightarrow> pyerr + string option list" where
  "orcid_id soup = orcid_id_loop (author_items soup) []"

fun doi_loop :: "string list \<Rightarrow> pyerr + pyval" where
  "doi_loop [] = Inr PNone"
| "doi_loop (pdoi # possible_doi) =
     (if contains_str ''doi.org'' pdoi
      then bind_err (index_last (split_str ''doi.org/'' pdoi)) (\<lambda>d. Inr (PStr d))
      else doi_loop possible_doi)"

definition doi :: "article_page \<Rightarrow> pyerr + pyval" where
  "doi soup = doi_loop (bib_values soup)"

definition journal :: "article_page \<Rightarrow> pyerr + string" where
  "journal soup = bind_err (index_at (info_details soup) 0) (\<lambda>links. index_at links 0)"

section \<open>Listing-card extractors (\<open>src/sitelogic/Nature.py\<close>)\<close>

text \<open>An article card of a listing page, again by what the selectors return on it.\<close>

record card =
  card_links :: "(string \<times> string option) list"
    \<comment> \<open>the \<open>.c-card__link\<close> elements: text and \<open>href\<close>\<close>
  card_author_lists :: "string list list"
    \<comment> \<open>per \<open>.app-author-list\<close>: the stripped texts of its name spans\<close>
  card_types :: "string list"
    \<comment> \<open>texts of the \<open>.c-meta__type\<close> elements\<close>
  card_times :: "string option list"
    \<comment> \<open>the \<open>datetime\<close> attribute of each \<open>time\<close> element\<close>

definition basehref :: string where
  "basehref = ''https://www.nature.com''"

definition title :: "card \<Rightarrow> pyerr + string" where
  "title el = bind_err (index_at (card_links el) 0) (\<lambda>a. Inr (fst a))"

definition title_link :: "card \<Rightarrow> pyerr + string" where
  "title_link el =
     bind_err (index_at (card_links el) 0) (\<lambda>a.
     bind_err (attr_of (snd a)) (\<lambda>href. Inr (basehref @ href)))"

definition nat_sl_authors :: "card \<Rightarrow> pyerr + string list" where
  "nat_sl_authors el = index_at (card_author_lists el) 0"

definition article_type :: "card \<Rightarrow> pyerr + string" where
  "article_type el = index_at (card_types el) 0"

definition date_published :: "card \<Rightarrow> pyerr + string" where
  "date_published el = bind_err (index_at (card_times el) 0) attr_of"

section \<open>Helpers of \<open>src/util.py\<close>\<close>

definition number_words :: "string list" where
  "number_words = [''FIRST'', ''SECOND'', ''THIRD'']"

definition getSingleAuthorDict :: "string \<Rightarrow> pyerr + dict" where
  "getSingleAuthorDict auth =
     (let auth_split = split_on CHR '' '' auth in
      bind_err (index_last auth_split) (\<lambda>lastname.
        Inr (AList.update ''LASTNAME'' (PStr lastname)
              (AList.update ''FIRSTNAME'' (PStr (join_space (butlast auth_split))) []))))"

fun getAuthorDict_loop :: "nat \<Rightarrow> string list \<Rightarrow> dict \<Rightarrow> pyerr + dict" where
  "getAuthorDict_loop j [] author_dict = Inr author_dict"
| "getAuthorDict_loop j (auth # rest) author_dict =
     (if j \<ge> length number_words then Inr author_dict
      else
        bind_err (getSingleAuthorDict auth) (\<lambda>author_dict_temp.
        bind_err (dict_get author_dict_temp ''FIRSTNAME'') (\<lambda>fn.
        bind_err (dict_get author_dict_temp ''LASTNAME'') (\<lambda>ln.
          getAuthorDict_loop (Suc j) rest
            (AList.update (number_words ! j @ ''_LASTNAME'') ln
              (AList.update (number_words ! j @ ''_FIRSTNAME'') fn author_dict))))))"

definition getAuthorDict :: "string list \<Rightarrow> pyerr + dict" where
  "getAuthorDict authors = getAuthorDict_loop 0 authors []"

definition removeNones :: "dict \<Rightarrow> dict" where
  "removeNones dict_x = filter (\<lambda>kv. snd kv \<noteq> PStr [] \<and> snd kv \<noteq> PNone) dict_x"

text \<open>
  \<open>truncateEntries\<close> walks the columns of the table: \<open>cols\<close> gives each column's name and
  the \<open>length\<close> of its type, when it has one. A length of zero does not truncate
  (\<open>if max_len\<close>).
\<close>

fun truncateEntries :: "dict \<Rightarrow> (string \<times> nat option) list \<Rightarrow> dict" where
  "truncateEntries entry [] = []"
| "truncateEntries entry ((name, max_len) # cols) =
     (case map_of entry name of
        None \<Rightarrow> truncateEntries entry cols
      | Some val \<Rightarrow>
          (case (val, max_len) of
             (PStr v, Some n) \<Rightarrow> (name, PStr (if n \<noteq> 0 then take n v else v))
           | _ \<Rightarrow> (name, val))
          # truncateEntries entry cols)"

section \<open>The database and the outside world\<close>

text \<open>
  The tables that \<open>download.py\<close> reflects from the MySQL schema. A stored row is the
  primary key the database generated for it (\<open>inserted_primary_key[0]\<close>) together with
  the inserted values; a column that was not given a value is \<open>NULL\<close>, that is, absent.
\<close>

datatype table = ARTICLES | AUTHORS | ARTICLES_AUTHORS

record database =
  rows :: "table \<Rightarrow> (nat \<times> dict) list"
  next_id :: "table \<Rightarrow> nat"

text \<open>Every statement sent to the database, on either connection, in program order.\<close>

datatype db_op =
    Select table "(string \<times> pyval) list"
  | Insert table dict
  | CallProc string string
  | Commit

datatype out_line =
    OutHashes
  | OutExceeded int
  | OutPage int
  | OutArticle nat
  | OutReached nat
  | OutAlreadySeen
  | OutExc pyerr
  | OutNum int
  | OutTitle pyval

text \<open>
  The state of a run: the database as the \<open>engine\<close> connection sees it, the
  \<open>AddOrIncrementWord\<close> calls made on the separate \<open>connector\<close> connection (those not yet
  committed, and those committed), the statements sent so far, and the printed lines.
\<close>

record state =
  db :: database
  words_pending :: "string list"
  words_committed :: "string list"
  trace :: "db_op list"
  out :: "out_line list"

text \<open>
  What the program cannot decide: the listing page of each page number (the article
  sections that \<open>soup.select(section_identifier)\<close> finds, or the exception of the fetch),
  the detail page behind each link, the column lengths of the reflected tables, and
  which statements the database rejects (\<open>db_fails n\<close>: the statement number \<open>n\<close> of the
  run raises).
\<close>

record world =
  listing :: "int \<Rightarrow> pyerr + card list"
  detail :: "string \<Rightarrow> pyerr + article_page"
  columns :: "table \<Rightarrow> (string \<times> nat option) list"
  db_fails :: "nat \<Rightarrow> bool"

definition print_line :: "out_line \<Rightarrow> state \<Rightarrow> state" where
  "print_line l s = s\<lparr>out := out s @ [l]\<rparr>"

text \<open>Sending one statement: it is recorded, and it raises when the database rejects it.\<close>

definition execute :: "world \<Rightarrow> db_op \<Rightarrow> state \<Rightarrow> (pyerr + unit) \<times> state" where
  "execute w op s =
     (if db_fails w (length (trace s))
      then Inl DatabaseError
      else Inr (),
      s\<lparr>trace := trace s @ [op]\<rparr>)"

text \<open>\<open>col == value\<close> in a \<open>WHERE\<close> clause; SQLAlchemy renders \<open>col == None\<close> as
  \<open>col IS NULL\<close>, and no value equals \<open>NULL\<close>.\<close>

definition sql_eq :: "dict \<Rightarrow> string \<times> pyval \<Rightarrow> bool" where
  "sql_eq row cond =
     (case snd cond of
        PNone \<Rightarrow> map_of row (fst cond) = None
      | v \<Rightarrow> map_of row (fst cond) = Some v)"

text \<open>\<open>conn.execute(select(...).where(...)).first()\<close>: the key of the first matching row.\<close>

definition select_first :: "world \<Rightarrow> table \<Rightarrow> (string \<times> pyval) list \<Rightarrow> state
    \<Rightarrow> (pyerr + nat option) \<times> state" where
  "select_first w DB conds s =
     (case execute w (Select DB conds) s of
        (Inl e, s1) \<Rightarrow> (Inl e, s1)
      | (Inr u, s1) \<Rightarrow>
          (Inr (map_option fst
                 (find (\<lambda>r. list_all (sql_eq (snd r)) conds) (rows (db s1) DB))),
           s1))"

definition elemInDB :: "world \<Rightarrow> pyval \<Rightarrow> string \<Rightarrow> table \<Rightarrow> state \<Rightarrow> (pyerr + bool) \<times> state" where
  "elemInDB w elem field DB s =
     (case select_first w DB [(field, elem)] s of
        (Inl e, s1) \<Rightarrow> (Inl e, s1)
      | (Inr found, s1) \<Rightarrow> (Inr (found \<noteq> None), s1))"

text \<open>\<open>myInsert\<close> returns the key of the new row.\<close>

definition myInsert :: "world \<Rightarrow> dict \<Rightarrow> table \<Rightarrow> bool \<Rightarrow> bool \<Rightarrow> state \<Rightarrow> (pyerr + nat) \<times> state" where
  "myInsert w entry DB rm_nones trunc s =
     (let entry1 = (if rm_nones then removeNones entry else entry);
          entry2 = (if trunc then truncateEntries entry1 (columns w DB) else entry1)
      in case execute w (Insert DB entry2) s of
           (Inl e, s1) \<Rightarrow> (Inl e, s1)
         | (Inr u, s1) \<Rightarrow>
             (let key = next_id (db s1) DB in
              (Inr key,
               s1\<lparr>db := (db s1)\<lparr>rows := (rows (db s1))(DB := rows (db s1) DB @ [(key, entry2)]),
                                 next_id := (next_id (db s1))(DB := Suc key)\<rparr>\<rparr>)))"

text \<open>
  \<open>with engine.begin() as conn\<close>: the block's writes are kept when it ends normally and
  undone when an exception leaves it. The statements stay in the trace either way.
\<close>

definition engine_begin :: "(state \<Rightarrow> (pyerr + 'a) \<times> state) \<Rightarrow> state \<Rightarrow> (pyerr + 'a) \<times> state" where
  "engine_begin body s =
     (case body s of
        (Inl e, s1) \<Rightarrow> (Inl e, s1\<lparr>db := db s\<rparr>)
      | (Inr v, s1) \<Rightarrow> (Inr v, s1))"

section \<open>The crawl of \<open>download.py\<close>\<close>

subsection \<open>Extraction of one article (lines 143 to 190)\<close>

text \<open>How the \<open>try\<close> block of the extraction leaves the loop body: \<open>continue\<close>,
  \<open>break\<close>, or on to the insertion with what was extracted.\<close>

datatype extraction = Continue | Break | Extracted dict "string list" "string option list"

text \<open>The two handlers: \<open>except IndexError: continue\<close> and
  \<open>except Exception as e: print(e); break\<close>.\<close>

definition handle_extraction_error :: "pyerr \<Rightarrow> state \<Rightarrow> extraction \<times> state" where
  "handle_extraction_error e s =
     (if e = IndexError then (Continue, s) else (Break, print_line (OutExc e) s))"

text \<open>Lines 144 to 161: title, link, the fetch of the detail page, DOI, metrics, dates
  and journal.\<close>

definition extract_detail :: "world \<Rightarrow> card \<Rightarrow> pyerr + (dict \<times> article_page)" where
  "extract_detail w el =
     bind_err (title el) (\<lambda>t.
     bind_err (title_link el) (\<lambda>l.
     bind_err (detail w l) (\<lambda>article_soup.
     bind_err (doi article_soup) (\<lambda>d.
     bind_err (metrics article_soup) (\<lambda>m.
     bind_err (dateList article_soup) (\<lambda>dl.
     bind_err (journal article_soup) (\<lambda>j.
       Inr (AList.update ''JOURNAL'' (PStr j)
             (dict_update
               (dict_update
                 (AList.update ''DOI'' d
                   (AList.update ''TITLE_LINK'' (PStr l)
                     (AList.update ''TITLE'' (PStr t) [])))
                 m)
               dl),
            article_soup))))))))"

text \<open>Lines 170 to 183: type, publication date and short author list of the card, and
  the author names and ORCID iDs of the detail page.\<close>

definition extract_listing :: "card \<Rightarrow> article_page \<Rightarrow> dict
    \<Rightarrow> pyerr + (dict \<times> string list \<times> string option list)" where
  "extract_listing el article_soup articles_entry =
     bind_err (article_type el) (\<lambda>ty.
     bind_err (date_published el) (\<lambda>dp.
     bind_err (nat_sl_authors el) (\<lambda>authors.
     bind_err (getAuthorDict authors) (\<lambda>author_dict.
     bind_err (natArt_sl_authors article_soup) (\<lambda>authors_proper.
     bind_err (orcid_id article_soup) (\<lambda>auth_proper_orcid.
       Inr (dict_update
              (AList.update ''DATE_PUBLISHED'' (PStr dp)
                (AList.update ''ARTICLE_TYPE'' (PStr ty) articles_entry))
              author_dict,
            authors_proper, auth_proper_orcid)))))))"

definition extraction_stage :: "world \<Rightarrow> card \<Rightarrow> state \<Rightarrow> extraction \<times> state" where
  "extraction_stage w el s =
     (case extract_detail w el of
        Inl e \<Rightarrow> handle_extraction_error e s
      | Inr (articles_entry, article_soup) \<Rightarrow>
          (case dict_get articles_entry ''DOI'' of
             Inl e \<Rightarrow> handle_extraction_error e s
           | Inr d \<Rightarrow>
               (case engine_begin (elemInDB w d ''DOI'' ARTICLES) s of
                  (Inl e, s1) \<Rightarrow> handle_extraction_error e s1
                | (Inr True, s1) \<Rightarrow> (Continue, print_line OutAlreadySeen s1)
                | (Inr False, s1) \<Rightarrow>
                    (case extract_listing el article_soup articles_entry of
                       Inl e \<Rightarrow> handle_extraction_error e s1
                     | Inr (entry, authors_proper, auth_proper_orcid) \<Rightarrow>
                         (Extracted entry authors_proper auth_proper_orcid, s1)))))"

subsection \<open>Insertion of one article (lines 192 to 252)\<close>

definition orcid_val :: "string option \<Rightarrow> pyval" where
  "orcid_val oid = (case oid of None \<Rightarrow> PNone | Some v \<Rightarrow> PStr v)"

text \<open>
  Lines 206 to 228: the author is looked up by ORCID iD when one was extracted and by
  first and last name otherwise; a new row is inserted when the lookup finds nothing.
  \<open>auth_single_dict\<close> already holds the \<open>ORCID\<close> entry of line 204.
\<close>

definition resolve_author :: "world \<Rightarrow> dict \<Rightarrow> string option \<Rightarrow> state \<Rightarrow> (pyerr + nat) \<times> state" where
  "resolve_author w auth_single_dict oid s =
     (case (if oid \<noteq> None
            then bind_err (dict_get auth_single_dict ''ORCID'') (\<lambda>v. Inr [(''ORCID'', v)])
            else bind_err (dict_get auth_single_dict ''FIRSTNAME'') (\<lambda>fn.
                 bind_err (dict_get auth_single_dict ''LASTNAME'') (\<lambda>ln.
                   Inr [(''FIRSTNAME'', fn), (''LASTNAME'', ln)]))) of
        Inl e \<Rightarrow> (Inl e, s)
      | Inr conds \<Rightarrow>
          (case select_first w AUTHORS conds s of
             (Inl e, s1) \<Rightarrow> (Inl e, s1)
           | (Inr None, s1) \<Rightarrow> myInsert w auth_single_dict AUTHORS True True s1
           | (Inr (Some existing), s1) \<Rightarrow> (Inr existing, s1)))"

text \<open>Lines 230 to 234: the link row, unless this author is already linked to the
  article. The result is the new \<open>auth_id_seen\<close>.\<close>

definition link_author :: "world \<Rightarrow> nat \<Rightarrow> nat \<Rightarrow> nat set \<Rightarrow> state \<Rightarrow> (pyerr + nat set) \<times> state" where
  "link_author w article_id_last auth_id auth_id_seen s =
     (if auth_id \<notin> auth_id_seen
      then
        (case myInsert w [(''ARTICLE_ID'', PInt (int article_id_last)),
                          (''AUTHOR_ID'', PInt (int auth_id))]
                ARTICLES_AUTHORS False False s of
           (Inl e, s1) \<Rightarrow> (Inl e, s1)
         | (Inr k, s1) \<Rightarrow> (Inr (insert auth_id auth_id_seen), s1))
      else (Inr auth_id_seen, s))"

text \<open>Lines 200 to 234, the body of the loop over \<open>authors_proper\<close>. The result is
  the set \<open>auth_id_seen\<close> after the iteration.\<close>

definition author_body :: "world \<Rightarrow> nat \<Rightarrow> nat \<Rightarrow> string \<Rightarrow> string option list \<Rightarrow> nat set
    \<Rightarrow> state \<Rightarrow> (pyerr + nat set) \<times> state" where
  "author_body w article_id_last auth_i auth auth_proper_orcid auth_id_seen s =
     (case getSingleAuthorDict auth of
        Inl e \<Rightarrow> (Inl e, s)
      | Inr auth_single_dict \<Rightarrow>
     (case dict_get auth_single_dict ''FIRSTNAME'' of
        Inl e \<Rightarrow> (Inl e, s)
      | Inr firstname \<Rightarrow>
     if firstname = PStr []
     then (Inr auth_id_seen, s)
     else
     (case index_at auth_proper_orcid auth_i of
        Inl e \<Rightarrow> (Inl e, s)
      | Inr oid \<Rightarrow>
     (case resolve_author w (AList.update ''ORCID'' (orcid_val oid) auth_single_dict) oid s of
        (Inl e, s1) \<Rightarrow> (Inl e, s1)
      | (Inr auth_id, s1) \<Rightarrow> link_author w article_id_last auth_id auth_id_seen s1))))"

text \<open>Lines 198 to 234, the loop with its index \<open>auth_i\<close>.\<close>

fun author_loop :: "world \<Rightarrow> nat \<Rightarrow> nat \<Rightarrow> string list \<Rightarrow> string option list \<Rightarrow> nat set
    \<Rightarrow> state \<Rightarrow> (pyerr + unit) \<times> state" where
  "author_loop w article_id_last auth_i [] auth_proper_orcid auth_id_seen s = (Inr (), s)"
| "author_loop w article_id_last auth_i (auth # rest) auth_proper_orcid auth_id_seen s =
     (case author_body w article_id_last auth_i auth auth_proper_orcid auth_id_seen s of
        (Inl e, s1) \<Rightarrow> (Inl e, s1)
      | (Inr seen, s1) \<Rightarrow>
          author_loop w article_id_last (Suc auth_i) rest auth_proper_orcid seen s1)"

text \<open>Lines 193 to 234: the body of the transaction.\<close>

definition insert_article :: "world \<Rightarrow> dict \<Rightarrow> string list \<Rightarrow> string option list \<Rightarrow> state
    \<Rightarrow> (pyerr + unit) \<times> state" where
  "insert_article w articles_entry authors_proper auth_proper_orcid s =
     (case myInsert w articles_entry ARTICLES True True s of
        (Inl e, s1) \<Rightarrow> (Inl e, s1)
      | (Inr article_id_last, s1) \<Rightarrow>
          author_loop w article_id_last 0 authors_proper auth_proper_orcid {} s1)"

text \<open>Line 239: every character outside \<open>[a-zA-Z0-9]\<close> becomes one space, and the result
  is split at every single space.\<close>

definition cleaned_title :: "string \<Rightarrow> string list" where
  "cleaned_title t = split_on CHR '' '' (map (\<lambda>c. if is_alnum c then c else CHR '' '') t)"

text \<open>Lines 240 and 241, on the \<open>connector\<close> connection.\<close>

fun word_loop :: "world \<Rightarrow> string list \<Rightarrow> state \<Rightarrow> (pyerr + unit) \<times> state" where
  "word_loop w [] s = (Inr (), s)"
| "word_loop w (x # xs) s =
     (case execute w (CallProc ''AddOrIncrementWord'' (lower x)) s of
        (Inl e, s1) \<Rightarrow> (Inl e, s1)
      | (Inr u, s1) \<Rightarrow> word_loop w xs (s1\<lparr>words_pending := words_pending s1 @ [lower x]\<rparr>))"

text \<open>Line 243, \<open>connector.commit()\<close>.\<close>

definition connector_commit :: "world \<Rightarrow> state \<Rightarrow> (pyerr + unit) \<times> state" where
  "connector_commit w s =
     (case execute w Commit s of
        (Inl e, s1) \<Rightarrow> (Inl e, s1)
      | (Inr u, s1) \<Rightarrow>
          (Inr (), s1\<lparr>words_committed := words_committed s1 @ words_pending s1,
                       words_pending := []\<rparr>))"

text \<open>Line 239 on \<open>articles_entry['TITLE']\<close>: \<open>re.sub\<close> raises \<open>TypeError\<close> when the value is
  not a string (a metrics label \<open>title\<close> overwrites the entry with a number at line 155).\<close>

definition title_words :: "dict \<Rightarrow> pyerr + string list" where
  "title_words articles_entry =
     (case dict_get articles_entry ''TITLE'' of
        Inl e \<Rightarrow> Inl e
      | Inr (PStr t) \<Rightarrow> Inr (cleaned_title t)
      | Inr v \<Rightarrow> Inl TypeError)"

text \<open>Lines 193 to 243, the body of the second \<open>try\<close>.\<close>

definition insert_and_count :: "world \<Rightarrow> dict \<Rightarrow> string list \<Rightarrow> string option list \<Rightarrow> state
    \<Rightarrow> (pyerr + unit) \<times> state" where
  "insert_and_count w articles_entry authors_proper auth_proper_orcid s =
     (case engine_begin (insert_article w articles_entry authors_proper auth_proper_orcid) s of
        (Inl e, s1) \<Rightarrow> (Inl e, s1)
      | (Inr u, s1) \<Rightarrow>
          (case title_words articles_entry of
             Inl e \<Rightarrow> (Inl e, s1)
           | Inr ts \<Rightarrow>
               (case word_loop w ts s1 of
                  (Inl e, s2) \<Rightarrow> (Inl e, s2)
                | (Inr u, s2) \<Rightarrow> connector_commit w s2)))"

text \<open>The second \<open>try\<close> with its handler (lines 245 to 252). The result is \<open>Inr True\<close>
  when the block ended normally, \<open>Inr False\<close> when the handler ran (it sets
  \<open>keepSeeking = False\<close> and breaks), and an exception when the handler itself raised:
  \<open>print(articles_entry['TITLE'])\<close> on an entry without that key.\<close>

definition insert_stage :: "world \<Rightarrow> int \<Rightarrow> nat \<Rightarrow> dict \<Rightarrow> string list \<Rightarrow> string option list
    \<Rightarrow> state \<Rightarrow> (pyerr + bool) \<times> state" where
  "insert_stage w page_num i articles_entry authors_proper auth_proper_orcid s =
     (case insert_and_count w articles_entry authors_proper auth_proper_orcid s of
        (Inr u, s1) \<Rightarrow> (Inr True, s1)
      | (Inl e, s1) \<Rightarrow>
          (case dict_get articles_entry ''TITLE'' of
             Inl ke \<Rightarrow> (Inl ke, print_line (OutNum (int i)) (print_line (OutNum page_num) s1))
           | Inr v \<Rightarrow>
               (Inr False,
                print_line (OutExc e)
                  (print_line (OutTitle v)
                    (print_line (OutNum (int i))
                      (print_line (OutNum page_num) s1))))))"

subsection \<open>The loop over the cards of a page (lines 131 to 252)\<close>

text \<open>The result is the value of \<open>keepSeeking\<close> when the \<open>for\<close> loop is left, or the
  exception that left it uncaught.\<close>

fun article_loop :: "world \<Rightarrow> int \<Rightarrow> nat \<Rightarrow> card list \<Rightarrow> state \<Rightarrow> (pyerr + bool) \<times> state" where
  "article_loop w page_num i [] s = (Inr True, s)"
| "article_loop w page_num i (el # els) s =
     (if i \<ge> 1000
      then (Inr True, print_line (OutReached i) (print_line (OutArticle i) s))
      else
        (case extraction_stage w el (print_line (OutArticle i) s) of
           (Continue, s1) \<Rightarrow> article_loop w page_num (Suc i) els s1
         | (Break, s1) \<Rightarrow> (Inr True, s1)
         | (Extracted articles_entry authors_proper auth_proper_orcid, s1) \<Rightarrow>
             (case insert_stage w page_num i articles_entry authors_proper auth_proper_orcid s1 of
                (Inr True, s2) \<Rightarrow> article_loop w page_num (Suc i) els s2
              | (Inr False, s2) \<Rightarrow> (Inr False, s2)
              | (Inl e, s2) \<Rightarrow> (Inl e, s2))))"

subsection \<open>The pagination loop (lines 99 to 128)\<close>

text \<open>How the \<open>while\<close> loop ends: the \<open>break\<close> of line 109, \<open>keepSeeking = False\<close> at line
  127 or at line 250, or an exception that nothing catches (that of a listing fetch, or
  one that left the loop over the cards).\<close>

datatype stop = MaxPages | NoSections | InsertStage | Unhandled pyerr

function crawl_loop :: "world \<Rightarrow> int \<Rightarrow> int \<Rightarrow> state \<Rightarrow> (stop \<times> int) \<times> state" where
  "crawl_loop w max_pages page_num s =
     (if page_num \<ge> max_pages
      then ((MaxPages, page_num),
            print_line (OutExceeded page_num)
              (print_line OutHashes (print_line OutHashes (print_line OutHashes
                (print_line OutHashes (print_line OutHashes s))))))
      else if page_num + 1 < 0 then crawl_loop w max_pages (page_num + 1) s
      else
        (case listing w (page_num + 1) of
           Inl e \<Rightarrow> ((Unhandled e, page_num + 1), print_line (OutPage (page_num + 1)) s)
         | Inr sections_to_read \<Rightarrow>
             if length sections_to_read = 0
             then ((NoSections, page_num + 1), print_line (OutPage (page_num + 1)) s)
             else
               (case article_loop w (page_num + 1) 0 sections_to_read
                       (print_line (OutPage (page_num + 1)) s) of
                  (Inr True, s2) \<Rightarrow> crawl_loop w max_pages (page_num + 1) s2
                | (Inr False, s2) \<Rightarrow> ((InsertStage, page_num + 1), s2)
                | (Inl e, s2) \<Rightarrow> ((Unhandled e, page_num + 1), s2))))"
  by pat_completeness auto
termination
  by (relation "measure (\<lambda>(w, max_pages, page_num, s). nat (max_pages - page_num))") auto

text \<open>The run from \<open>--start_page\<close> and \<open>--max_pages\<close> (line 100).\<close>

definition crawl :: "world \<Rightarrow> int \<Rightarrow> int \<Rightarrow> state \<Rightarrow> (stop \<times> int) \<times> state" where
  "crawl w start_page max_pages s = crawl_loop w max_pages (start_page - 1) s"

text \<open>What a stage leaves alone: the statements on the \<open>engine\<close> connection touch neither
  the printed lines nor the word counts, those on the \<open>connector\<close> connection touch
  neither the tables nor the printed lines.\<close>

definition engine_only :: "state \<Rightarrow> state \<Rightarrow> bool" where
  "engine_only s s' =
     (out s' = out s \<and> words_pending s' = words_pending s \<and> words_committed s' = words_committed s)"

definition connector_only :: "state \<Rightarrow> state \<Rightarrow> bool" where
  "connector_only s s' = (out s' = out s \<and> db s' = db s)"

text \<open>The lines that the pagination loop itself prints: the page banner of line 117 and
  the lines of the page limit (106 to 108).\<close>

fun is_loop_line :: "out_line \<Rightarrow> bool" where
  "is_loop_line OutHashes = True"
| "is_loop_line (OutExceeded n) = True"
| "is_loop_line (OutPage n) = True"
| "is_loop_line l = False"

definition loop_lines :: "out_line list \<Rightarrow> out_line list" where
  "loop_lines ls = filter is_loop_line ls"


text \<open>The link row of line 233 for an article and an author, stored under the key \<open>k\<close>:
  \<open>link_row article_id (k, author_id)\<close>.\<close>

definition link_row :: "nat \<Rightarrow> nat \<times> nat \<Rightarrow> nat \<times> dict" where
  "link_row article_id ka =
     (fst ka, [(''ARTICLE_ID'', PInt (int article_id)), (''AUTHOR_ID'', PInt (int (snd ka)))])"

section \<open>A small site and an empty database, for concrete runs\<close>

text \<open>
  A detail page with the DOI \<open>a\<close>, no metrics and no dates, and three authors: a person
  with an ORCID iD, a one-word name, and the same person under a longer name. A card
  that links to it with a title whose two words are separated by two spaces, and a card
  that has no title link. Page 1 lists the broken card and then the good one; every
  other page is empty.
\<close>

definition example_page :: article_page where
  "example_page = \<lparr>bib_values = [''doi.org/a''], metrics_wrappers = [[]], bib_items = [],
     info_details = [[''N'']], author_lists = [[''A B'', ''C'', ''A D B'']],
     author_items = [[Some ''x''], [], [Some ''x'']]\<rparr>"

definition example_card :: card where
  "example_card = \<lparr>card_links = [(''a  b'', Some ''/a'')], card_author_lists = [[''A B'']],
     card_types = [''T''], card_times = [Some ''d'']\<rparr>"

definition example_card_no_link :: card where
  "example_card_no_link = \<lparr>card_links = [], card_author_lists = [], card_types = [],
     card_times = []\<rparr>"

definition example_world :: world where
  "example_world = \<lparr>listing = (\<lambda>n. if n = 1 then Inr [example_card_no_link, example_card] else Inr []),
     detail = (\<lambda>u. Inr example_page),
     columns = (\<lambda>t. case t of
                  ARTICLES \<Rightarrow> [(''TITLE'', Some 3), (''DOI'', None)]
                | AUTHORS \<Rightarrow> [(''FIRSTNAME'', None), (''LASTNAME'', None), (''ORCID'', None)]
                | ARTICLES_AUTHORS \<Rightarrow> [(''ARTICLE_ID'', None), (''AUTHOR_ID'', None)]),
     db_fails = (\<lambda>n. False)\<rparr>"

definition empty_state :: state where
  "empty_state = \<lparr>db = \<lparr>rows = (\<lambda>t. []), next_id = (\<lambda>t. 1)\<rparr>, words_pending = [],
     words_committed = [], trace = [], out = []\<rparr>"

text \<open>A database that already holds an article with the DOI \<open>a\<close> and an author with the
  ORCID iD \<open>x\<close>.\<close>

definition filled_state :: state where
  "filled_state = empty_state\<lparr>db :=
     \<lparr>rows = (\<lambda>t. case t of
                  ARTICLES \<Rightarrow> [(1, [(''TITLE'', PStr ''a''), (''DOI'', PStr ''a'')])]
                | AUTHORS \<Rightarrow> [(7, [(''FIRSTNAME'', PStr ''A''), (''LASTNAME'', PStr ''B''),
                                (''ORCID'', PStr ''x'')])]
                | ARTICLES_AUTHORS \<Rightarrow> [(1, [(''ARTICLE_ID'', PInt 1), (''AUTHOR_ID'', PInt 7)])]),
      next_id = (\<lambda>t. case t of ARTICLES \<Rightarrow> 2 | AUTHORS \<Rightarrow> 8 | ARTICLES_AUTHORS \<Rightarrow> 2)\<rparr>\<rparr>"

text \<open>The same site with a database that rejects exactly the statement number \<open>n\<close> of
  the run, with a detail page whose metrics bar shows \<open>1.2k\<close>, with listing pages that
  cannot be fetched, and with a detail page that lists an author but no author item (so
  that the ORCID list is shorter than the author list).\<close>

definition failing_world :: "nat \<Rightarrow> world" where
  "failing_world n = example_world\<lparr>db_fails := (\<lambda>k. k = n)\<rparr>"

definition decimal_metrics_world :: world where
  "decimal_metrics_world =
     example_world\<lparr>detail := (\<lambda>u. Inr (example_page\<lparr>metrics_wrappers := [[''1.2k A'']]\<rparr>))\<rparr>"


definition short_orcid_world :: world where
  "short_orcid_world =
     example_world\<lparr>listing := (\<lambda>n. if n = 1 then Inr [example_card] else Inr []),
                   detail := (\<lambda>u. Inr (example_page\<lparr>author_items := []\<rparr>))\<rparr>"

section \<open>Properties of the string primitives\<close>

lemma digit_not_space: "is_digit c \<Longrightarrow> \<not> is_space c"
  by (auto simp: is_digit_def is_space_def Let_def)

lemma digit_not_special:
  "is_digit c \<Longrightarrow> c \<noteq> CHR ''k'' \<and> c \<noteq> CHR ''_'' \<and> c \<noteq> CHR ''-'' \<and> c \<noteq> CHR ''+''"
  by (auto simp: is_digit_def Let_def)

lemma dropWhile_none: "\<forall>c\<in>set xs. \<not> P c \<Longrightarrow> dropWhile P xs = xs"
  by (cases xs) auto

lemma digit_not_int_space: "is_digit c \<Longrightarrow> \<not> is_int_space c"
  by (auto simp: is_digit_def is_int_space_def Let_def)

lemma int_strip_digits:
  "list_all is_digit ds \<Longrightarrow> rev (dropWhile is_int_space (rev (dropWhile is_int_space ds))) = ds"
  by (simp add: dropWhile_none list_all_iff digit_not_int_space)

lemma int_body_ok_digits: "ds \<noteq> [] \<Longrightarrow> list_all is_digit ds \<Longrightarrow> int_body_ok ds"
  by (induction ds rule: int_body_ok.induct) (auto simp: digit_not_special)

lemma filter_digits: "list_all is_digit ds \<Longrightarrow> filter (\<lambda>x. x \<noteq> CHR ''_'') ds = ds"
  by (induction ds) (auto simp: digit_not_special)

lemma py_int_digits:
  assumes "ds \<noteq> []" and "list_all is_digit ds"
  shows "py_int ds = (if length ds \<le> 4300 then Inr (int (digits_val ds)) else Inl ValueError)"
proof -
  obtain c cs where ds: "ds = c # cs" using assms(1) by (cases ds) auto
  have c: "c \<noteq> CHR ''-''" "c \<noteq> CHR ''+''" using assms(2) ds by (auto simp: digit_not_special)
  have f: "filter (\<lambda>x. x \<noteq> CHR ''_'') (c # cs) = c # cs"
    using filter_digits[OF assms(2)] ds by simp
  have b: "int_body_ok (c # cs)" using int_body_ok_digits[OF assms] ds by simp
  have st: "rev (dropWhile is_int_space (rev (dropWhile is_int_space ds))) = c # cs"
    using int_strip_digits[OF assms(2)] by (simp only: ds)
  show ?thesis
    unfolding py_int_def st
    using c b by (simp add: Let_def f ds int_max_str_digits_def del: filter.simps int_body_ok.simps)
qed

lemma rstrip_k_digits: "list_all is_digit ds \<Longrightarrow> rstrip_k (ds @ ''k'') = ds"
  by (simp add: rstrip_k_def dropWhile_none list_all_iff digit_not_special)

lemma not_endswith_k_digits: "list_all is_digit ds \<Longrightarrow> \<not> endswith_k ds"
  by (cases ds rule: rev_cases) (auto simp: endswith_k_def digit_not_special)

section \<open>The numeric parse of the metrics bar\<close>

text \<open>
  Claim C2, as the code has it. The count is read with \<open>int\<close>, so the claim holds for the
  counts that are written as whole numbers: a count string of one to 4300 decimal digits
  parses to its value, and the same digits followed by \<open>k\<close> parse to a thousand times
  that value.
\<close>

theorem metrics_num_digits:
  assumes "ds \<noteq> []" and "list_all is_digit ds" and "length ds \<le> 4300"
  shows "metrics_num ds = Inr (int (digits_val ds))
       \<and> metrics_num (ds @ ''k'') = Inr (int (digits_val ds) * 1000)"
proof -
  have "endswith_k (ds @ ''k'')" by (simp add: endswith_k_def)
  then show ?thesis
    using assms
    by (simp add: metrics_num_def not_endswith_k_digits rstrip_k_digits py_int_digits
        bind_err_def)
qed

theorem metrics_num_digits_witness:
  "metrics_num ''250'' = Inr 250 \<and> metrics_num ''12k'' = Inr 12000 \<and> metrics_num ''1k'' = Inr 1000"
  using metrics_num_digits[of "''250''"] metrics_num_digits[of "''12''"] metrics_num_digits[of "''1''"]
  by (simp add: is_digit_def digits_val_def digit_val_def)

lemma metrics_num_too_long:
  assumes "list_all is_digit ds" and "4300 < length ds"
  shows "metrics_num ds = Inl ValueError"
proof -
  have "ds \<noteq> []" using assms(2) by auto
  from py_int_digits[OF this assms(1)] assms show ?thesis
    by (simp add: metrics_num_def not_endswith_k_digits)
qed

text \<open>
  Claim C2 as stated lists \<open>1.2k\<close> among the inputs that parse, and speaks of every count
  string. After the trailing \<open>k\<close> is removed, \<open>int('1.2')\<close> raises \<open>ValueError\<close>; and so
  does \<open>int\<close> on a count of 4301 digits.
\<close>

theorem metrics_num_decimal_point:
  "metrics_num ''1.2k'' = Inl ValueError
   \<and> metrics_num (replicate 4301 CHR ''1'') = Inl ValueError"
proof -
  have a: "metrics_num ''1.2k'' = Inl ValueError"
    by (simp add: metrics_num_def endswith_k_def rstrip_k_def py_int_def is_int_space_def
        is_digit_def bind_err_def)
  have d: "is_digit CHR ''1''" by (simp add: is_digit_def)
  have b: "metrics_num (replicate 4301 CHR ''1'') = Inl ValueError"
    by (rule metrics_num_too_long) (simp_all add: list_all_iff d)
  from a b show ?thesis by simp
qed

section \<open>The date normaliser\<close>

lemma lt10: "(k::nat) < 10 \<Longrightarrow> k = 0 \<or> k = 1 \<or> k = 2 \<or> k = 3 \<or> k = 4 \<or> k = 5 \<or> k = 6 \<or> k = 7 \<or> k = 8 \<or> k = 9"
  by arith

lemma digit_char_props:
  "is_digit (digit_char n)" "digit_val (digit_char n) = n mod 10" "\<not> is_space (digit_char n)"
proof -
  have "n mod 10 < 10" by simp
  from lt10[OF this]
  have "is_digit (digit_char n) \<and> digit_val (digit_char n) = n mod 10 \<and> \<not> is_space (digit_char n)"
    unfolding digit_char_def
    by (elim disjE) (simp_all add: is_digit_def digit_val_def is_space_def)
  then show "is_digit (digit_char n)" "digit_val (digit_char n) = n mod 10" "\<not> is_space (digit_char n)"
    by auto
qed

lemma dec4_arith: "(y::nat) < 10000 \<Longrightarrow>
   ((y div 1000 mod 10 * 10 + y div 100 mod 10) * 10 + y div 10 mod 10) * 10 + y mod 10 = y"
proof -
  assume "y < 10000"
  have a: "y = y div 10 * 10 + y mod 10" by simp
  have b: "y div 10 = y div 10 div 10 * 10 + y div 10 mod 10" by simp
  have c: "y div 10 div 10 = y div 10 div 10 div 10 * 10 + y div 10 div 10 mod 10" by simp
  have d: "y div 10 div 10 div 10 < 10" using \<open>y < 10000\<close> by (simp add: div_mult2_eq[symmetric] less_mult_imp_div_less)
  have e: "y div 10 div 10 = y div 100" "y div 10 div 10 div 10 = y div 1000" by (simp_all add: div_mult2_eq[symmetric])
  show ?thesis using a b c d e by (simp only: mod_less) 
qed

lemma match_year_dec4: "y < 10000 \<Longrightarrow> match_year (dec4 y) = Some y"
proof -
  assume y: "y < 10000"
  have "digits_val (dec4 y) = ((y div 1000 mod 10 * 10 + y div 100 mod 10) * 10 + y div 10 mod 10) * 10 + y mod 10"
    by (simp add: digits_val_def dec4_def digit_char_props)
  also have "\<dots> = y" using y by (rule dec4_arith)
  finally show ?thesis by (simp add: match_year_def dec4_def digit_char_props)
qed

lemma le12: "1 \<le> (m::nat) \<Longrightarrow> m \<le> 12 \<Longrightarrow> m = 1 \<or> m = 2 \<or> m = 3 \<or> m = 4 \<or> m = 5 \<or> m = 6 \<or> m = 7 \<or> m = 8 \<or> m = 9 \<or> m = 10 \<or> m = 11 \<or> m = 12"
  by arith

lemma match_month_name:
  assumes "1 \<le> m" "m \<le> 12"
  shows "match_month (month_name m @ CHR '' '' # r) = Some (m, CHR '' '' # r)"
  using le12[OF assms]
  unfolding match_month_def month_names_def month_name_def
  by (elim disjE)
     (simp_all add: lower_def lower_char_def upper_char_def is_upper_def is_lower_def
        char_of_def bit_Suc_0_iff)

lemma month_name_no_space: 
  assumes "1 \<le> m" "m \<le> 12"
  shows "\<exists>c cs. month_name m = c # cs \<and> \<not> is_space c"
  using le12[OF assms]
  unfolding month_names_def month_name_def
  by (elim disjE)
     (simp_all add: upper_char_def is_lower_def is_space_def char_of_def bit_Suc_0_iff)

lemma space_is_space: "is_space CHR '' ''"
  by (simp add: is_space_def)

lemma after_day_ok:
  assumes "1 \<le> m" "m \<le> 12" "y < 10000"
  shows "after_day (CHR '' '' # month_name m @ CHR '' '' # dec4 y) = Some (m, y)"
proof -
  obtain c cs where mn: "month_name m = c # cs" "\<not> is_space c"
    using month_name_no_space[OF assms(1,2)] by blast
  have 1: "skip_spaces1 (CHR '' '' # month_name m @ CHR '' '' # dec4 y) = Some (month_name m @ CHR '' '' # dec4 y)"
    using mn by (simp add: skip_spaces1_def space_is_space)
  have 2: "skip_spaces1 (CHR '' '' # dec4 y) = Some (dec4 y)"
    by (simp add: skip_spaces1_def space_is_space dec4_def digit_char_props)
  show ?thesis
    unfolding after_day_def 1 
    by (simp add: match_month_name[OF assms(1,2)] 2 match_year_dec4[OF assms(3)])
qed


lemma le31: "1 \<le> (d::nat) \<Longrightarrow> d \<le> 31 \<Longrightarrow>
  d = 1 \<or> d = 2 \<or> d = 3 \<or> d = 4 \<or> d = 5 \<or> d = 6 \<or> d = 7 \<or> d = 8 \<or> d = 9 \<or> d = 10
  \<or> d = 11 \<or> d = 12 \<or> d = 13 \<or> d = 14 \<or> d = 15 \<or> d = 16 \<or> d = 17 \<or> d = 18 \<or> d = 19 \<or> d = 20
  \<or> d = 21 \<or> d = 22 \<or> d = 23 \<or> d = 24 \<or> d = 25 \<or> d = 26 \<or> d = 27 \<or> d = 28 \<or> d = 29 \<or> d = 30
  \<or> d = 31"
  by arith

lemma day_alts_dec2:
  assumes "1 \<le> d" "d \<le> 31"
  shows "\<exists>alts. day_alts (dec2 d @ CHR '' '' # r) = (d, CHR '' '' # r) # alts"
  using le31[OF assms]
  unfolding day_alts_def dec2_def digit_char_def
  by (elim disjE) (simp_all add: is_digit_def digits_val_def digit_val_def)

lemma day_alts_single:
  assumes "1 \<le> d" "d \<le> 9"
  shows "\<exists>alts. day_alts (digit_char d # CHR '' '' # r) = (d, CHR '' '' # r) # alts"
proof -
  have "d < 10" using assms by simp
  from lt10[OF this] assms(1) show ?thesis
    unfolding day_alts_def digit_char_def
    by (elim disjE) (simp_all add: is_digit_def digits_val_def digit_val_def)
qed


lemma dec_four_digits:
  assumes "1000 \<le> y" and "y \<le> 9999"
  shows "dec y = dec4 y"
proof -
  have e: "y div 10 div 10 = y div 100" "y div 100 div 10 = y div 1000"
    by (simp_all add: div_mult2_eq[symmetric])
  have b: "\<not> y < 10" "\<not> y div 10 < 10" "\<not> y div 100 < 10" "y div 1000 < 10"
    using assms by simp_all
  show ?thesis
    using b
    by (simp add: dec.simps[of y] dec.simps[of "y div 10"] dec.simps[of "y div 100"]
        dec.simps[of "y div 1000"] e dec4_def)
qed

lemma normalize_date_ok:
  assumes "1 \<le> y" "y \<le> 9999" "1 \<le> m" "m \<le> 12" "1 \<le> d" "d \<le> days_in_month y m"
    and "day_txt = dec2 d \<or> (d \<le> 9 \<and> day_txt = [digit_char d])"
  shows "normalize_date (day_txt @ '' '' @ month_name m @ '' '' @ dec4 y)
           = Inr (dec y @ ''-'' @ dec2 m @ ''-'' @ dec2 d)"
proof -
  let ?r = "month_name m @ CHR '' '' # dec4 y"
  have d31: "d \<le> 31" using assms(6) by (simp add: days_in_month_def split: if_splits)
  have y: "y < 10000" using assms(2) by simp
  have "\<exists>alts. day_alts (day_txt @ CHR '' '' # ?r) = (d, CHR '' '' # ?r) # alts"
    using assms(7) day_alts_dec2[OF assms(5) d31, of ?r] day_alts_single[OF assms(5), of ?r]
    by auto
  then obtain alts where "day_alts (day_txt @ CHR '' '' # ?r) = (d, CHR '' '' # ?r) # alts" ..
  then have "first_match (day_alts (day_txt @ CHR '' '' # ?r)) = Some (y, m, d)"
    by (simp add: after_day_ok[OF assms(3,4) y])
  then show ?thesis
    using assms(1,6) by (simp add: normalize_date_def strptime_dBY_def strftime_Ymd_def bind_err_def)
qed

lemma split_on_nonempty: "split_on sep s \<noteq> []"
  by (induction s) (auto split: list.splits)

lemma split_on_no_sep: "sep \<notin> set s \<Longrightarrow> split_on sep s = [s]"
  by (induction s) auto

lemma split_on_append: "sep \<notin> set a \<Longrightarrow> split_on sep (a @ sep # b) = a # split_on sep b"
  by (induction a) auto

lemma strip_after_space:
  assumes "s \<noteq> []" "\<not> is_space (hd s)" "\<not> is_space (last s)"
  shows "strip (CHR '' '' # s) = s"
proof -
  have 1: "dropWhile is_space (CHR '' '' # s) = s"
    using assms(1,2) by (cases s) (simp_all add: space_is_space)
  have 2: "dropWhile is_space (rev s) = rev s"
    using assms(1,3) by (cases s rule: rev_cases) simp_all
  show ?thesis unfolding strip_def 1 2 by simp
qed

lemma digit_char_not_colon: "digit_char n \<noteq> CHR '':''" "CHR '':'' \<noteq> digit_char n"
proof -
  have "\<not> is_digit CHR '':''" by (simp add: is_digit_def)
  then show "digit_char n \<noteq> CHR '':''" "CHR '':'' \<noteq> digit_char n"
    using digit_char_props(1)[of n] by metis+
qed

lemma month_name_no_colon:
  assumes "1 \<le> m" "m \<le> 12"
  shows "CHR '':'' \<notin> set (month_name m)"
  using le12[OF assms]
  unfolding month_names_def month_name_def
  by (elim disjE)
     (simp_all add: upper_char_def is_lower_def char_of_def bit_Suc_0_iff)


text \<open>
  Claim C6, as the code has it. A date string made of the day of the month (two digits,
  or one digit for the days 1 to 9), a space, the English month name, a space and a
  four-digit year from 1000 on, naming a day that exists in the calendar, is normalised
  to \<open>YYYY-MM-DD\<close>. In \<open>dateList\<close> an item such as \<open>Received: 14 March 2023\<close> stores that
  string under the upper-cased field name and the loop goes on with the other items of
  the page, whatever they are and whatever was stored before; an item whose text before
  the first colon is none of the three field names is passed over.
\<close>

theorem dateList_iso:
  assumes "1000 \<le> y" "y \<le> 9999" "1 \<le> m" "m \<le> 12" "1 \<le> d" "d \<le> days_in_month y m"
    and "day_txt = dec2 d \<or> (d \<le> 9 \<and> day_txt = [digit_char d])"
    and "date_str = day_txt @ '' '' @ month_name m @ '' '' @ dec4 y"
    and "iso_str = dec4 y @ ''-'' @ dec2 m @ ''-'' @ dec2 d"
    and "field \<in> set fields_desired"
  shows "normalize_date date_str = Inr iso_str
       \<and> dateList_loop ((field @ '': '' @ date_str) # lis) date_data
           = dateList_loop lis (AList.update (upper field) (PStr iso_str) date_data)
       \<and> (bib_items soup = (field @ '': '' @ date_str) # lis \<longrightarrow>
            dateList soup = dateList_loop lis [(upper field, PStr iso_str)])
       \<and> (\<forall>li. hd (split_on CHR '':'' li) \<notin> set fields_desired \<longrightarrow>
            dateList_loop (li # lis) date_data = dateList_loop lis date_data)"
proof -
  have y1: "1 \<le> y" using assms(1) by simp
  have n: "normalize_date date_str = Inr iso_str"
    using normalize_date_ok[OF y1 assms(2-7)]
    by (simp only: assms(8,9) dec_four_digits[OF assms(1,2)])
  have fc: "CHR '':'' \<notin> set field"
    using assms(10) by (auto simp: fields_desired_def)
  have dc: "CHR '':'' \<notin> set date_str"
    using assms(7) month_name_no_colon[OF assms(3,4)]
    by (auto simp: assms(8) dec2_def dec4_def digit_char_not_colon)
  have sp: "split_on CHR '':'' (field @ CHR '':'' # CHR '' '' # date_str) = [field, CHR '' '' # date_str]"
    using fc dc by (simp add: split_on_append split_on_no_sep)
  have ne: "date_str \<noteq> []" "\<not> is_space (hd date_str)" "\<not> is_space (last date_str)"
    using assms(7) by (auto simp: assms(8) dec2_def dec4_def digit_char_props)
  have st: "strip (CHR '' '' # date_str) = date_str"
    by (rule strip_after_space[OF ne])
  have step: "dateList_loop ((field @ '': '' @ date_str) # lis) acc
           = dateList_loop lis (AList.update (upper field) (PStr iso_str) acc)" for acc
    using assms(10)
    by (simp add: sp index_at_def bind_err_def st n Let_def del: set_simps)
  have page: "bib_items soup = (field @ '': '' @ date_str) # lis \<longrightarrow>
            dateList soup = dateList_loop lis [(upper field, PStr iso_str)]"
    using step[of "[]"] by (simp add: dateList_def)
  have other: "dateList_loop (li # lis) date_data = dateList_loop lis date_data"
    if "hd (split_on CHR '':'' li) \<notin> set fields_desired" for li
  proof -
    obtain t ts where "split_on CHR '':'' li = t # ts"
      by (cases "split_on CHR '':'' li") (auto simp: split_on_nonempty)
    with that show ?thesis by (simp add: index_at_def bind_err_def Let_def del: set_simps)
  qed
  from n step[of date_data] page other show ?thesis by blast
qed

theorem dateList_iso_witness:
  "normalize_date ''14 March 2023'' = Inr ''2023-03-14''
   \<and> dateList \<lparr>bib_values = [], metrics_wrappers = [],
        bib_items = [''Received: 14 March 2023'', ''DOI: x'', ''Accepted: 2 May 2023'',
                     ''Published: 01 June 2023''],
        info_details = [], author_lists = [], author_items = []\<rparr>
       = Inr [(''RECEIVED'', PStr ''2023-03-14''), (''ACCEPTED'', PStr ''2023-05-02''),
              (''PUBLISHED'', PStr ''2023-06-01'')]"
proof -
  let ?rest = "[''DOI: x'', ''Accepted: 2 May 2023'', ''Published: 01 June 2023'']"
  let ?soup = "\<lparr>bib_values = [], metrics_wrappers = [],
        bib_items = ''Received: 14 March 2023'' # ?rest,
        info_details = [], author_lists = [], author_items = []\<rparr>"
  have h: "(1000::nat) \<le> 2023" "(2023::nat) \<le> 9999" "(1::nat) \<le> 3" "(3::nat) \<le> 12"
    "(1::nat) \<le> 14" "(14::nat) \<le> days_in_month 2023 3"
    by (simp_all add: days_in_month_def)
  have h7: "''14'' = dec2 14 \<or> ((14::nat) \<le> 9 \<and> ''14'' = [digit_char 14])"
    by (simp add: dec2_def digit_char_def)
  have h8: "''14 March 2023'' = ''14'' @ '' '' @ month_name 3 @ '' '' @ dec4 2023"
    by (simp add: dec4_def digit_char_def month_name_def month_names_def upper_char_def
        is_lower_def char_of_def bit_Suc_0_iff)
  have h9: "''2023-03-14'' = dec4 2023 @ ''-'' @ dec2 3 @ ''-'' @ dec2 14"
    by (simp add: dec2_def dec4_def digit_char_def)
  have h10: "''Received'' \<in> set fields_desired" by (simp add: fields_desired_def)
  note r = dateList_iso[OF h h7 h8 h9 h10, of ?rest "[]" ?soup]
  have u: "upper ''Received'' = ''RECEIVED''" by code_simp
  have rest: "dateList_loop ?rest [(''RECEIVED'', PStr ''2023-03-14'')]
      = Inr [(''RECEIVED'', PStr ''2023-03-14''), (''ACCEPTED'', PStr ''2023-05-02''),
             (''PUBLISHED'', PStr ''2023-06-01'')]"
    by code_simp
  from r u rest show ?thesis by simp
qed

text \<open>
  Claim C6 as stated speaks of every date string of the form. A four-digit year below
  1000 is printed without its leading zero, which is not the form \<open>YYYY-MM-DD\<close>; and a
  day that the month does not have raises \<open>ValueError\<close>.
\<close>

theorem normalize_date_short_year:
  "normalize_date ''14 March 0999'' = Inr ''999-03-14''
   \<and> normalize_date ''31 February 2023'' = Inl ValueError"
  by code_simp

section \<open>Authors without a first name\<close>

lemma getSingleAuthorDict_single_token:
  assumes "CHR '' '' \<notin> set auth"
  shows "getSingleAuthorDict auth = Inr [(''FIRSTNAME'', PStr []), (''LASTNAME'', PStr auth)]"
  using assms
  by (simp add: getSingleAuthorDict_def split_on_no_sep index_last_def bind_err_def)

text \<open>
  Claim C8. A name without a space has the empty string as its \<open>FIRSTNAME\<close>; and an
  author whose \<open>FIRSTNAME\<close> is empty is passed over: the loop goes on with the next author
  from the same state, so nothing is looked up, inserted or linked for that entry.
\<close>

theorem empty_firstname_skipped:
  "(CHR '' '' \<notin> set auth \<longrightarrow>
      (\<exists>d. getSingleAuthorDict auth = Inr d \<and> dict_get d ''FIRSTNAME'' = Inr (PStr [])))
   \<and> (\<forall>d. getSingleAuthorDict auth = Inr d \<and> dict_get d ''FIRSTNAME'' = Inr (PStr []) \<longrightarrow>
         author_loop w article_id_last auth_i (auth # rest) auth_proper_orcid auth_id_seen s
           = author_loop w article_id_last (Suc auth_i) rest auth_proper_orcid auth_id_seen s
         \<and> author_loop w article_id_last auth_i [auth] auth_proper_orcid auth_id_seen s = (Inr (), s))"
  by (auto simp: getSingleAuthorDict_single_token dict_get_def author_body_def)

theorem empty_firstname_skipped_witness:
  "getSingleAuthorDict ''C'' = Inr [(''FIRSTNAME'', PStr []), (''LASTNAME'', PStr ''C'')]
   \<and> author_loop example_world 1 1 [''C''] [Some ''x'', None, Some ''x''] {} empty_state
       = (Inr (), empty_state)"
proof -
  note r = empty_firstname_skipped[of "''C''" example_world 1 1 "[]" "[Some ''x'', None, Some ''x'']"
      "{}" empty_state]
  have g: "getSingleAuthorDict ''C'' = Inr [(''FIRSTNAME'', PStr []), (''LASTNAME'', PStr ''C'')]"
    by (simp add: getSingleAuthorDict_def index_last_def bind_err_def)
  have d: "dict_get [(''FIRSTNAME'', PStr []), (''LASTNAME'', PStr ''C'')] ''FIRSTNAME'' = Inr (PStr [])"
    by (simp add: dict_get_def)
  from r g d show ?thesis by blast
qed

section \<open>The title tokenizer and the word counter\<close>

lemma split_on_sep_append: "split_on sep (a @ sep # b) = split_on sep a @ split_on sep b"
proof (induction a)
  case Nil
  show ?case by simp
next
  case (Cons x a)
  obtain t ts where "split_on sep a = t # ts"
    using split_on_nonempty[of sep a] by (cases "split_on sep a") auto
  with Cons show ?case by simp
qed

lemma empty_token:
  assumes "t = pre @ c # post" and "\<not> is_alnum c"
    and "pre = [] \<or> post = [] \<or> \<not> is_alnum (hd post)"
  shows "[] \<in> set (cleaned_title t)"
proof -
  let ?f = "\<lambda>c. if is_alnum c then c else CHR '' ''"
  have eq: "cleaned_title t = split_on CHR '' '' (map ?f pre) @ split_on CHR '' '' (map ?f post)"
    using assms(1,2) by (simp add: cleaned_title_def split_on_sep_append)
  from assms(3) consider "pre = []" | "post = []" | "post \<noteq> []" "\<not> is_alnum (hd post)" by blast
  then show ?thesis
  proof cases
    case 1 then show ?thesis by (simp add: eq)
  next
    case 2 then show ?thesis by (simp add: eq)
  next
    case 3
    then obtain c' post' where "post = c' # post'" "\<not> is_alnum c'" by (cases post) auto
    then show ?thesis by (simp add: eq)
  qed
qed

lemma word_loop_ok:
  assumes "\<forall>n \<ge> length (trace s). \<not> db_fails w n"
  shows "word_loop w ts s =
     (Inr (), s\<lparr>words_pending := words_pending s @ map lower ts,
                 trace := trace s @ map (\<lambda>x. CallProc ''AddOrIncrementWord'' (lower x)) ts\<rparr>)"
  using assms
proof (induction ts arbitrary: s)
  case Nil
  show ?case by simp
next
  case (Cons x xs)
  let ?s1 = "s\<lparr>trace := trace s @ [CallProc ''AddOrIncrementWord'' (lower x)],
                 words_pending := words_pending s @ [lower x]\<rparr>"
  have ex: "execute w (CallProc ''AddOrIncrementWord'' (lower x)) s
      = (Inr (), s\<lparr>trace := trace s @ [CallProc ''AddOrIncrementWord'' (lower x)]\<rparr>)"
    using Cons.prems by (simp add: execute_def)
  have "\<forall>n \<ge> length (trace ?s1). \<not> db_fails w n" using Cons.prems by simp
  from Cons.IH[OF this] show ?case by (simp add: ex)
qed

text \<open>
  Claim C10. When the transaction of a new article has ended normally and the database
  accepts the statements that follow, a title with a character outside \<open>[a-zA-Z0-9]\<close>
  at its start, at its end, or right before another such character yields an empty
  token, and \<open>AddOrIncrementWord\<close> is called once per token, in order, with the lower-cased
  token: so also with the empty string.
\<close>

theorem empty_tokens_counted:
  assumes "engine_begin (insert_article w articles_entry authors_proper auth_proper_orcid) s
             = (Inr (), s1)"
    and "\<forall>n \<ge> length (trace s1). \<not> db_fails w n"
    and "dict_get articles_entry ''TITLE'' = Inr (PStr t)"
    and "t = pre @ c # post" and "\<not> is_alnum c"
    and "pre = [] \<or> post = [] \<or> \<not> is_alnum (hd post)"
  shows "[] \<in> set (cleaned_title t)
    \<and> insert_and_count w articles_entry authors_proper auth_proper_orcid s =
        (Inr (),
         s1\<lparr>words_pending := [],
            words_committed := words_committed s1 @ words_pending s1
               @ map lower (cleaned_title t),
            trace := trace s1
               @ map (\<lambda>x. CallProc ''AddOrIncrementWord'' (lower x)) (cleaned_title t)
               @ [Commit]\<rparr>)
    \<and> CallProc ''AddOrIncrementWord'' []
        \<in> set (trace (snd (insert_and_count w articles_entry authors_proper auth_proper_orcid s)))"
proof -
  let ?ts = "cleaned_title t"
  have e: "[] \<in> set ?ts" by (rule empty_token[OF assms(4,5,6)])
  have tw: "title_words articles_entry = Inr ?ts" by (simp add: title_words_def assms(3))
  have wl: "word_loop w ?ts s1 =
     (Inr (), s1\<lparr>words_pending := words_pending s1 @ map lower ?ts,
                 trace := trace s1 @ map (\<lambda>x. CallProc ''AddOrIncrementWord'' (lower x)) ?ts\<rparr>)"
    by (rule word_loop_ok[OF assms(2)])
  have ok: "\<not> db_fails w (length (trace s1) + length ?ts)" using assms(2) by simp
  have eq: "insert_and_count w articles_entry authors_proper auth_proper_orcid s =
        (Inr (),
         s1\<lparr>words_pending := [],
            words_committed := words_committed s1 @ words_pending s1 @ map lower ?ts,
            trace := trace s1 @ map (\<lambda>x. CallProc ''AddOrIncrementWord'' (lower x)) ?ts
               @ [Commit]\<rparr>)"
    using ok by (simp add: insert_and_count_def assms(1) tw wl connector_commit_def execute_def)
  have "CallProc ''AddOrIncrementWord'' (lower [])
     \<in> (\<lambda>x. CallProc ''AddOrIncrementWord'' (lower x)) ` set ?ts"
    using e by (rule imageI)
  then have "CallProc ''AddOrIncrementWord'' []
        \<in> set (trace (snd (insert_and_count w articles_entry authors_proper auth_proper_orcid s)))"
    by (simp add: eq lower_def)
  with e eq show ?thesis by simp
qed

theorem empty_tokens_counted_witness:
  "cleaned_title ''a  b'' = [''a'', [], ''b'']
   \<and> CallProc ''AddOrIncrementWord'' []
        \<in> set (trace (snd (insert_and_count example_world [(''TITLE'', PStr ''a  b'')] [] []
                              empty_state)))"
proof -
  let ?e = "[(''TITLE'', PStr ''a  b'')]"
  have f: "fst (engine_begin (insert_article example_world ?e [] []) empty_state) = Inr ()"
    by code_simp
  have h1: "engine_begin (insert_article example_world ?e [] []) empty_state
      = (Inr (), snd (engine_begin (insert_article example_world ?e [] []) empty_state))"
    using f by (metis prod.collapse)
  have h2: "\<forall>n \<ge> length (trace (snd (engine_begin (insert_article example_world ?e [] []) empty_state))).
      \<not> db_fails example_world n"
    by (simp add: example_world_def)
  have h3: "dict_get ?e ''TITLE'' = Inr (PStr ''a  b'')" by (simp add: dict_get_def)
  have h3': "''a  b'' = ''a'' @ CHR '' '' # '' b''" by simp
  have h4: "\<not> is_alnum CHR '' ''" by (simp add: is_alnum_def is_lower_def is_upper_def is_digit_def)
  have h5: "''a'' = [] \<or> '' b'' = [] \<or> \<not> is_alnum (hd '' b'')" using h4 by simp
  have t: "cleaned_title ''a  b'' = [''a'', [], ''b'']" by code_simp
  note r = empty_tokens_counted[OF h1 h2 h3 h3' h4 h5]
  show ?thesis
    by (intro conjI) (rule t, rule r[THEN conjunct2, THEN conjunct2])
qed

section \<open>The existence check on the DOI\<close>

lemma elemInDB_found:
  assumes "\<exists>r \<in> set (rows (db s) DB). sql_eq (snd r) (field, elem)"
  shows "engine_begin (elemInDB w elem field DB) s =
     (if db_fails w (length (trace s)) then Inl DatabaseError else Inr True,
      s\<lparr>trace := trace s @ [Select DB [(field, elem)]]\<rparr>)"
proof -
  have "find (\<lambda>r. list_all (sql_eq (snd r)) [(field, elem)]) (rows (db s) DB) \<noteq> None"
  proof -
    from assms obtain r where "r \<in> set (rows (db s) DB)" "sql_eq (snd r) (field, elem)" ..
    then have "\<exists>x. x \<in> set (rows (db s) DB) \<and> list_all (sql_eq (snd x)) [(field, elem)]"
      by (intro exI[of _ r]) simp
    then show ?thesis unfolding find_None_iff by blast
  qed
  then show ?thesis
    by (auto simp: engine_begin_def elemInDB_def select_first_def execute_def)
qed

text \<open>
  Claim C3, as the code has it. When the extraction of lines 144 to 161 has gone through
  (title, link, detail page, DOI, metrics, dates, journal) and the DOI of the entry is
  the DOI of a row of \<open>ARTICLES\<close>, the extraction never hands the article on to the
  insertion: the database is left as it was and the only statement sent is the
  existence check on \<open>ARTICLES\<close>. When the database answers that check, \<open>Already seen\<close> is
  printed and the loop goes on with the next card.
\<close>

theorem already_seen_skipped:
  assumes "extract_detail w el = Inr (articles_entry, article_soup)"
    and "dict_get articles_entry ''DOI'' = Inr d"
    and "\<exists>r \<in> set (rows (db s) ARTICLES). sql_eq (snd r) (''DOI'', d)"
  shows "fst (extraction_stage w el s) \<in> {Continue, Break}
    \<and> db (snd (extraction_stage w el s)) = db s
    \<and> trace (snd (extraction_stage w el s)) = trace s @ [Select ARTICLES [(''DOI'', d)]]
    \<and> (\<not> db_fails w (length (trace s)) \<longrightarrow>
         extraction_stage w el s =
           (Continue, s\<lparr>trace := trace s @ [Select ARTICLES [(''DOI'', d)]],
                        out := out s @ [OutAlreadySeen]\<rparr>)
         \<and> (i < 1000 \<longrightarrow>
              article_loop w page_num i (el # els) s =
                article_loop w page_num (Suc i) els
                  (s\<lparr>trace := trace s @ [Select ARTICLES [(''DOI'', d)]],
                     out := out s @ [OutArticle i, OutAlreadySeen]\<rparr>)))"
proof -
  have st: "extraction_stage w el s =
      (if db_fails w (length (trace s))
       then handle_extraction_error DatabaseError (s\<lparr>trace := trace s @ [Select ARTICLES [(''DOI'', d)]]\<rparr>)
       else (Continue, print_line OutAlreadySeen (s\<lparr>trace := trace s @ [Select ARTICLES [(''DOI'', d)]]\<rparr>)))"
    by (simp add: extraction_stage_def assms(1,2) elemInDB_found[OF assms(3)])
  have a: "fst (extraction_stage w el s) \<in> {Continue, Break}"
    by (simp add: st handle_extraction_error_def)
  have b: "db (snd (extraction_stage w el s)) = db s"
    by (simp add: st handle_extraction_error_def print_line_def)
  have c: "trace (snd (extraction_stage w el s)) = trace s @ [Select ARTICLES [(''DOI'', d)]]"
    by (simp add: st handle_extraction_error_def print_line_def)
  have pl: "\<And>st'. db (print_line (OutArticle i) st') = db st'
      \<and> trace (print_line (OutArticle i) st') = trace st'"
    by (simp add: print_line_def)
  have st2: "\<not> db_fails w (length (trace s)) \<Longrightarrow>
      extraction_stage w el (print_line (OutArticle i) s) =
        (Continue, s\<lparr>trace := trace s @ [Select ARTICLES [(''DOI'', d)]],
                     out := out s @ [OutArticle i, OutAlreadySeen]\<rparr>)"
    using assms(3)
    by (simp add: extraction_stage_def assms(1,2) elemInDB_found pl) (simp add: print_line_def)
  have d: "\<not> db_fails w (length (trace s)) \<longrightarrow>
         extraction_stage w el s =
           (Continue, s\<lparr>trace := trace s @ [Select ARTICLES [(''DOI'', d)]],
                        out := out s @ [OutAlreadySeen]\<rparr>)
         \<and> (i < 1000 \<longrightarrow>
              article_loop w page_num i (el # els) s =
                article_loop w page_num (Suc i) els
                  (s\<lparr>trace := trace s @ [Select ARTICLES [(''DOI'', d)]],
                     out := out s @ [OutArticle i, OutAlreadySeen]\<rparr>))"
  proof (intro impI conjI)
    assume nf: "\<not> db_fails w (length (trace s))"
    show "extraction_stage w el s =
           (Continue, s\<lparr>trace := trace s @ [Select ARTICLES [(''DOI'', d)]],
                        out := out s @ [OutAlreadySeen]\<rparr>)"
      using nf by (simp add: st print_line_def)
    assume "i < 1000"
    then show "article_loop w page_num i (el # els) s =
                article_loop w page_num (Suc i) els
                  (s\<lparr>trace := trace s @ [Select ARTICLES [(''DOI'', d)]],
                     out := out s @ [OutArticle i, OutAlreadySeen]\<rparr>)"
      by (simp add: st2[OF nf])
  qed
  from a b c d show ?thesis by blast
qed

theorem already_seen_skipped_witness:
  "extraction_stage example_world example_card filled_state =
      (Continue, filled_state\<lparr>trace := [Select ARTICLES [(''DOI'', PStr ''a'')]],
                             out := [OutAlreadySeen]\<rparr>)
   \<and> article_loop example_world 1 0 [example_card] filled_state =
      (Inr True, filled_state\<lparr>trace := [Select ARTICLES [(''DOI'', PStr ''a'')]],
                         out := [OutArticle 0, OutAlreadySeen]\<rparr>)"
proof -
  let ?e = "[(''TITLE'', PStr ''a  b''), (''TITLE_LINK'', PStr ''https://www.nature.com/a''),
             (''DOI'', PStr ''a''), (''JOURNAL'', PStr ''N'')]"
  have h1: "extract_detail example_world example_card = Inr (?e, example_page)"
    by code_simp
  have h2: "dict_get ?e ''DOI'' = Inr (PStr ''a'')" by (simp add: dict_get_def)
  have h3: "\<exists>r \<in> set (rows (db filled_state) ARTICLES). sql_eq (snd r) (''DOI'', PStr ''a'')"
    by (simp add: filled_state_def sql_eq_def)
  have h4: "\<not> db_fails example_world (length (trace filled_state))"
    by (simp add: example_world_def)
  have t: "trace filled_state = []" "out filled_state = []"
    by (simp_all add: filled_state_def empty_state_def)
  note r = already_seen_skipped[OF h1 h2 h3, of 0 1 "[]"]
  from r h4 t show ?thesis by simp
qed

text \<open>
  Claim C3 as stated speaks of every article whose extracted DOI is in \<open>ARTICLES\<close>. The
  DOI is extracted at line 152 and checked at line 165; in between, the metrics, the
  dates and the journal are extracted. With the DOI \<open>a\<close> in the table and a metrics bar
  that shows \<open>1.2k\<close>, \<open>int\<close> raises before the check: the exception is printed, no skip
  message is, no statement is sent, and the rest of the page is abandoned (the second
  card is not even announced). And when the database rejects the check itself, the
  page is abandoned in the same way.
\<close>

theorem already_seen_not_reached:
  "doi (example_page\<lparr>metrics_wrappers := [[''1.2k A'']]\<rparr>) = Inr (PStr ''a'')
   \<and> rows (db filled_state) ARTICLES = [(1, [(''TITLE'', PStr ''a''), (''DOI'', PStr ''a'')])]
   \<and> fst (extraction_stage decimal_metrics_world example_card filled_state) = Break
   \<and> out (snd (extraction_stage decimal_metrics_world example_card filled_state))
       = [OutExc ValueError]
   \<and> trace (snd (extraction_stage decimal_metrics_world example_card filled_state)) = []
   \<and> out (snd (article_loop decimal_metrics_world 1 0 [example_card, example_card]
                   filled_state))
       = [OutArticle 0, OutExc ValueError]
   \<and> out (snd (extraction_stage (failing_world 0) example_card filled_state))
       = [OutExc DatabaseError]"
  by code_simp

section \<open>Link rows of one article\<close>

lemma execute_db: "db (snd (execute w op s)) = db s"
  by (simp add: execute_def)

lemma select_first_db: "db (snd (select_first w DB conds s)) = db s"
  by (simp add: select_first_def execute_def split: prod.splits sum.splits)

lemma myInsert_rows:
  "rows (db (snd (myInsert w entry DB rm tr s))) DB' =
     (case fst (myInsert w entry DB rm tr s) of
        Inl e \<Rightarrow> rows (db s) DB'
      | Inr k \<Rightarrow> (if DB' = DB
                  then rows (db s) DB @ [(k, (if tr then truncateEntries (if rm then removeNones entry else entry) (columns w DB)
                                               else (if rm then removeNones entry else entry)))]
                  else rows (db s) DB'))"
  by (simp add: myInsert_def execute_def Let_def)

lemma resolve_author_links:
  "rows (db (snd (resolve_author w d oid s))) ARTICLES_AUTHORS = rows (db s) ARTICLES_AUTHORS"
proof -
  have m: "\<And>s1. rows (db (snd (myInsert w d AUTHORS True True s1))) ARTICLES_AUTHORS
      = rows (db s1) ARTICLES_AUTHORS"
    by (simp add: myInsert_rows split: sum.splits)
  have sf: "\<And>c r s1. select_first w AUTHORS c s = (r, s1) \<Longrightarrow> db s1 = db s"
    using select_first_db[of w AUTHORS _ s] by (metis snd_conv)
  show ?thesis
    unfolding resolve_author_def
    by (auto split: sum.splits prod.splits option.splits simp: m dest: sf)
qed

lemma myInsert_rows_pair:
  assumes "myInsert w entry DB False False s = (r, s1)"
  shows "rows (db s1) DB = (case r of Inl e \<Rightarrow> rows (db s) DB | Inr k \<Rightarrow> rows (db s) DB @ [(k, entry)])"
  using myInsert_rows[of w entry DB False False s DB] assms by (simp split: sum.splits)

lemma link_author_rows:
  assumes "link_author w aid a seen s = (r, s1)"
  shows "\<exists>ids. rows (db s1) ARTICLES_AUTHORS
           = rows (db s) ARTICLES_AUTHORS @ map (link_row aid) ids
        \<and> distinct (map snd ids) \<and> set (map snd ids) \<inter> seen = {}
        \<and> (\<forall>seen'. r = Inr seen' \<longrightarrow> seen \<subseteq> seen' \<and> set (map snd ids) \<subseteq> seen')"
proof (cases "a \<in> seen")
  case True
  with assms show ?thesis by (intro exI[of _ "[]"]) (auto simp: link_author_def)
next
  case False
  let ?e = "[(''ARTICLE_ID'', PInt (int aid)), (''AUTHOR_ID'', PInt (int a))]"
  obtain r0 s0 where m: "myInsert w ?e ARTICLES_AUTHORS False False s = (r0, s0)"
    by (cases "myInsert w ?e ARTICLES_AUTHORS False False s") auto
  note rw = myInsert_rows_pair[OF m]
  show ?thesis
  proof (cases r0)
    case (Inl e)
    with assms False m rw show ?thesis
      by (intro exI[of _ "[]"]) (auto simp: link_author_def)
  next
    case (Inr k)
    with assms False m rw show ?thesis
      by (intro exI[of _ "[(k, a)]"]) (auto simp: link_author_def link_row_def)
  qed
qed

lemma author_body_rows:
  assumes "author_body w aid i auth orc seen s = (r, s1)"
  shows "\<exists>ids. rows (db s1) ARTICLES_AUTHORS
           = rows (db s) ARTICLES_AUTHORS @ map (link_row aid) ids
        \<and> distinct (map snd ids) \<and> set (map snd ids) \<inter> seen = {}
        \<and> (\<forall>seen'. r = Inr seen' \<longrightarrow> seen \<subseteq> seen' \<and> set (map snd ids) \<subseteq> seen')"
proof -
  have triv: "s1 = s \<Longrightarrow> (\<forall>seen'. r = Inr seen' \<longrightarrow> seen \<subseteq> seen') \<Longrightarrow> ?thesis"
    by (intro exI[of _ "[]"]) simp
  show ?thesis
  proof (cases "getSingleAuthorDict auth")
    case (Inl e)
    with assms show ?thesis by (intro triv) (auto simp: author_body_def)
  next
    case d: (Inr auth_single_dict)
    show ?thesis
    proof (cases "dict_get auth_single_dict ''FIRSTNAME''")
      case (Inl e)
      with assms d show ?thesis by (intro triv) (auto simp: author_body_def)
    next
      case f: (Inr firstname)
      show ?thesis
      proof (cases "firstname = PStr []")
        case True
        with assms d f show ?thesis by (intro triv) (auto simp: author_body_def)
      next
        case ne: False
        show ?thesis
        proof (cases "index_at orc i")
          case (Inl e)
          with assms d f ne show ?thesis by (intro triv) (auto simp: author_body_def)
        next
          case o: (Inr oid)
          obtain r2 s2 where
            res: "resolve_author w (AList.update ''ORCID'' (orcid_val oid) auth_single_dict) oid s
                    = (r2, s2)"
            by (cases "resolve_author w (AList.update ''ORCID'' (orcid_val oid) auth_single_dict) oid s") auto
          have rows2: "rows (db s2) ARTICLES_AUTHORS = rows (db s) ARTICLES_AUTHORS"
            using resolve_author_links[of w _ oid s] res by (metis snd_conv)
          show ?thesis
          proof (cases r2)
            case (Inl e)
            with assms d f ne o res have "s1 = s2" "r = Inl e" by (auto simp: author_body_def)
            with rows2 show ?thesis by (intro exI[of _ "[]"]) simp
          next
            case (Inr auth_id)
            with assms d f ne o res have "link_author w aid auth_id seen s2 = (r, s1)"
              by (auto simp: author_body_def)
            from link_author_rows[OF this] rows2 show ?thesis by simp
          qed
        qed
      qed
    qed
  qed
qed

lemma author_loop_rows:
  assumes "author_loop w aid i auths orc seen s = (r, s1)"
  shows "\<exists>ids. rows (db s1) ARTICLES_AUTHORS
           = rows (db s) ARTICLES_AUTHORS @ map (link_row aid) ids
        \<and> distinct (map snd ids) \<and> set (map snd ids) \<inter> seen = {}"
  using assms
proof (induction auths arbitrary: i seen s)
  case Nil
  then show ?case by (intro exI[of _ "[]"]) simp
next
  case (Cons auth rest)
  obtain r0 s0 where b: "author_body w aid i auth orc seen s = (r0, s0)"
    by (cases "author_body w aid i auth orc seen s") auto
  from author_body_rows[OF b] obtain ids where
    ids: "rows (db s0) ARTICLES_AUTHORS = rows (db s) ARTICLES_AUTHORS @ map (link_row aid) ids"
      "distinct (map snd ids)" "set (map snd ids) \<inter> seen = {}"
      "\<forall>seen'. r0 = Inr seen' \<longrightarrow> seen \<subseteq> seen' \<and> set (map snd ids) \<subseteq> seen'"
    by blast
  show ?case
  proof (cases r0)
    case (Inl e)
    with Cons.prems b have "s1 = s0" by simp
    with ids show ?thesis by blast
  next
    case (Inr seen')
    with Cons.prems b have "author_loop w aid (Suc i) rest orc seen' s0 = (r, s1)" by simp
    from Cons.IH[OF this] obtain ids' where
      ids': "rows (db s1) ARTICLES_AUTHORS = rows (db s0) ARTICLES_AUTHORS @ map (link_row aid) ids'"
        "distinct (map snd ids')" "set (map snd ids') \<inter> seen' = {}"
      by blast
    from ids(4) Inr have sub: "seen \<subseteq> seen'" "set (map snd ids) \<subseteq> seen'" by auto
    have 1: "rows (db s1) ARTICLES_AUTHORS
        = rows (db s) ARTICLES_AUTHORS @ map (link_row aid) (ids @ ids')"
      using ids(1) ids'(1) by simp
    have 2: "distinct (map snd (ids @ ids'))"
      using ids(2) ids'(2,3) sub(2) by auto
    have 3: "set (map snd (ids @ ids')) \<inter> seen = {}"
      using ids(3) ids'(3) sub(1) by auto
    from 1 2 3 show ?thesis by blast
  qed
qed


lemma myInsert_key:
  assumes "myInsert w entry DB rm tr s = (Inr k, s1)"
  shows "k = next_id (db s) DB"
  using assms by (auto simp: myInsert_def execute_def Let_def split: if_splits)

text \<open>
  Claim C4. Whatever the author list of the detail page and however the transaction of
  an article ends, the rows it adds to \<open>ARTICLES_AUTHORS\<close> all link the new article, and
  no two of them link it to the same author: at most one link row per pair of article
  and author.
\<close>

theorem link_rows_distinct:
  assumes "engine_begin (insert_article w articles_entry authors_proper auth_proper_orcid) s
             = (r, s1)"
  shows "\<exists>ids. rows (db s1) ARTICLES_AUTHORS
             = rows (db s) ARTICLES_AUTHORS @ map (link_row (next_id (db s) ARTICLES)) ids
           \<and> distinct (map snd ids)"
proof -
  obtain r0 s0 where m: "myInsert w articles_entry ARTICLES True True s = (r0, s0)"
    by (cases "myInsert w articles_entry ARTICLES True True s") auto
  have nothing: "rows (db s1) ARTICLES_AUTHORS = rows (db s) ARTICLES_AUTHORS \<Longrightarrow> ?thesis"
    by (intro exI[of _ "[]"]) simp
  show ?thesis
  proof (cases r0)
    case (Inl e)
    with assms m have "db s1 = db s"
      by (auto simp: engine_begin_def insert_article_def)
    then show ?thesis using nothing by simp
  next
    case (Inr k)
    have k: "k = next_id (db s) ARTICLES" using m Inr by (auto dest: myInsert_key)
    have r0: "rows (db s0) ARTICLES_AUTHORS = rows (db s) ARTICLES_AUTHORS"
      using myInsert_rows[of w articles_entry ARTICLES True True s ARTICLES_AUTHORS] m Inr
      by simp
    obtain r2 s2 where l:
      "author_loop w k 0 authors_proper auth_proper_orcid {} s0 = (r2, s2)"
      by (cases "author_loop w k 0 authors_proper auth_proper_orcid {} s0") auto
    from author_loop_rows[OF l] obtain ids where
      ids: "rows (db s2) ARTICLES_AUTHORS = rows (db s0) ARTICLES_AUTHORS @ map (link_row k) ids"
        "distinct (map snd ids)"
      by blast
    show ?thesis
    proof (cases r2)
      case (Inl e)
      with assms m Inr l have "db s1 = db s"
        by (auto simp: engine_begin_def insert_article_def)
      then show ?thesis using nothing by simp
    next
      case Inr2: (Inr u)
      with assms m Inr l have "s1 = s2"
        by (auto simp: engine_begin_def insert_article_def)
      with ids r0 k show ?thesis by auto
    qed
  qed
qed

theorem link_rows_distinct_witness:
  "rows (db (snd (engine_begin
       (insert_article example_world [(''TITLE'', PStr ''a'')] [''A B'', ''C'', ''A D B'']
          [Some ''x'', None, Some ''x''])
       empty_state))) ARTICLES_AUTHORS
     = [(1, [(''ARTICLE_ID'', PInt 1), (''AUTHOR_ID'', PInt 1)])]
   \<and> (\<exists>ids. rows (db (snd (engine_begin
       (insert_article example_world [(''TITLE'', PStr ''a'')] [''A B'', ''C'', ''A D B'']
          [Some ''x'', None, Some ''x''])
       empty_state))) ARTICLES_AUTHORS
         = rows (db empty_state) ARTICLES_AUTHORS
             @ map (link_row (next_id (db empty_state) ARTICLES)) ids
        \<and> distinct (map snd ids))"
proof -
  let ?run = "engine_begin
       (insert_article example_world [(''TITLE'', PStr ''a'')] [''A B'', ''C'', ''A D B'']
          [Some ''x'', None, Some ''x''])
       empty_state"
  have e: "rows (db (snd ?run)) ARTICLES_AUTHORS
     = [(1, [(''ARTICLE_ID'', PInt 1), (''AUTHOR_ID'', PInt 1)])]"
    by code_simp
  have p: "?run = (fst ?run, snd ?run)" by simp
  from link_rows_distinct[OF p] e show ?thesis by blast
qed

section \<open>Author resolution\<close>

lemma dict_get_update:
  "dict_get (AList.update k v d) k' = (if k' = k then Inr v else dict_get d k')"
  by (simp add: dict_get_def update_conv')

lemma select_first_ok:
  assumes "\<not> db_fails w (length (trace s))"
  shows "select_first w DB conds s =
     (Inr (map_option fst (find (\<lambda>r. list_all (sql_eq (snd r)) conds) (rows (db s) DB))),
      s\<lparr>trace := trace s @ [Select DB conds]\<rparr>)"
  using assms by (simp add: select_first_def execute_def)

lemma myInsert_ok:
  assumes "\<not> db_fails w (length (trace s))"
  shows "myInsert w entry DB True True s =
     (Inr (next_id (db s) DB),
      s\<lparr>trace := trace s @ [Insert DB (truncateEntries (removeNones entry) (columns w DB))],
         db := (db s)\<lparr>rows := (rows (db s))(DB := rows (db s) DB
                          @ [(next_id (db s) DB, truncateEntries (removeNones entry) (columns w DB))]),
                      next_id := (next_id (db s))(DB := Suc (next_id (db s) DB))\<rparr>\<rparr>)"
  using assms by (simp add: myInsert_def execute_def Let_def)

text \<open>
  Claim C5, as the code has it. For an author with a non-empty first name whose index
  has an entry in the ORCID list, when the database accepts the statements: the lookup
  on \<open>AUTHORS\<close> is by ORCID iD when one was extracted and by first and last name
  otherwise; when it finds a row, that row's key is the author's ID and nothing is
  inserted; when it finds none, one row is inserted and its generated key is the ID;
  and the body of the author loop goes on to the link row with that ID. In particular
  an ORCID iD that is already in \<open>AUTHORS\<close> resolves to a row that has it, and the table
  is left as it was.
\<close>

theorem resolve_author_cases:
  assumes "getSingleAuthorDict auth = Inr auth_single_dict"
    and "dict_get auth_single_dict ''FIRSTNAME'' = Inr fn" and "fn \<noteq> PStr []"
    and "dict_get auth_single_dict ''LASTNAME'' = Inr ln"
    and "index_at auth_proper_orcid auth_i = Inr oid"
    and "d = AList.update ''ORCID'' (orcid_val oid) auth_single_dict"
    and "conds = (case oid of Some v \<Rightarrow> [(''ORCID'', PStr v)]
                  | None \<Rightarrow> [(''FIRSTNAME'', fn), (''LASTNAME'', ln)])"
    and "\<not> db_fails w (length (trace s))" and "\<not> db_fails w (Suc (length (trace s)))"
  shows "(case find (\<lambda>r. list_all (sql_eq (snd r)) conds) (rows (db s) AUTHORS) of
            Some existing \<Rightarrow>
              resolve_author w d oid s =
                (Inr (fst existing), s\<lparr>trace := trace s @ [Select AUTHORS conds]\<rparr>)
              \<and> author_body w article_id_last auth_i auth auth_proper_orcid auth_id_seen s =
                  link_author w article_id_last (fst existing) auth_id_seen
                    (s\<lparr>trace := trace s @ [Select AUTHORS conds]\<rparr>)
          | None \<Rightarrow>
              resolve_author w d oid s =
                (Inr (next_id (db s) AUTHORS),
                 s\<lparr>trace := trace s @ [Select AUTHORS conds,
                        Insert AUTHORS (truncateEntries (removeNones d) (columns w AUTHORS))],
                    db := (db s)\<lparr>rows := (rows (db s))(AUTHORS := rows (db s) AUTHORS
                             @ [(next_id (db s) AUTHORS,
                                 truncateEntries (removeNones d) (columns w AUTHORS))]),
                           next_id := (next_id (db s))(AUTHORS := Suc (next_id (db s) AUTHORS))\<rparr>\<rparr>)
              \<and> author_body w article_id_last auth_i auth auth_proper_orcid auth_id_seen s =
                  link_author w article_id_last (next_id (db s) AUTHORS) auth_id_seen
                    (s\<lparr>trace := trace s @ [Select AUTHORS conds,
                          Insert AUTHORS (truncateEntries (removeNones d) (columns w AUTHORS))],
                       db := (db s)\<lparr>rows := (rows (db s))(AUTHORS := rows (db s) AUTHORS
                               @ [(next_id (db s) AUTHORS,
                                   truncateEntries (removeNones d) (columns w AUTHORS))]),
                             next_id := (next_id (db s))(AUTHORS := Suc (next_id (db s) AUTHORS))\<rparr>\<rparr>))
     \<and> (\<forall>v. oid = Some v
            \<and> (\<exists>r \<in> set (rows (db s) AUTHORS). map_of (snd r) ''ORCID'' = Some (PStr v)) \<longrightarrow>
            (\<exists>r \<in> set (rows (db s) AUTHORS). map_of (snd r) ''ORCID'' = Some (PStr v)
                \<and> fst (resolve_author w d oid s) = Inr (fst r))
            \<and> db (snd (resolve_author w d oid s)) = db s)"
proof -
  let ?hit = "find (\<lambda>r. list_all (sql_eq (snd r)) conds) (rows (db s) AUTHORS)"
  let ?new = "s\<lparr>trace := trace s @ [Select AUTHORS conds,
                        Insert AUTHORS (truncateEntries (removeNones d) (columns w AUTHORS))],
                    db := (db s)\<lparr>rows := (rows (db s))(AUTHORS := rows (db s) AUTHORS
                             @ [(next_id (db s) AUTHORS,
                                 truncateEntries (removeNones d) (columns w AUTHORS))]),
                           next_id := (next_id (db s))(AUTHORS := Suc (next_id (db s) AUTHORS))\<rparr>\<rparr>"
  have cond_eq: "(if oid \<noteq> None
            then bind_err (dict_get d ''ORCID'') (\<lambda>v. Inr [(''ORCID'', v)])
            else bind_err (dict_get d ''FIRSTNAME'') (\<lambda>fn.
                 bind_err (dict_get d ''LASTNAME'') (\<lambda>ln.
                   Inr [(''FIRSTNAME'', fn), (''LASTNAME'', ln)]))) = Inr conds"
    using assms(2,4)
    by (cases oid) (simp_all add: assms(6,7) dict_get_update bind_err_def orcid_val_def)
  have sel: "select_first w AUTHORS conds s =
     (Inr (map_option fst ?hit), s\<lparr>trace := trace s @ [Select AUTHORS conds]\<rparr>)"
    by (rule select_first_ok[OF assms(8)])
  have ins: "myInsert w d AUTHORS True True (s\<lparr>trace := trace s @ [Select AUTHORS conds]\<rparr>) =
     (Inr (next_id (db s) AUTHORS), ?new)"
    using assms(9) by (simp add: myInsert_ok)
  have res: "resolve_author w d oid s =
      (case ?hit of
         Some existing \<Rightarrow> (Inr (fst existing), s\<lparr>trace := trace s @ [Select AUTHORS conds]\<rparr>)
       | None \<Rightarrow> (Inr (next_id (db s) AUTHORS), ?new))"
    unfolding resolve_author_def cond_eq
    by (cases ?hit) (simp_all add: sel ins)
  have body: "author_body w article_id_last auth_i auth auth_proper_orcid auth_id_seen s =
      (case resolve_author w d oid s of
         (Inl e, s1) \<Rightarrow> (Inl e, s1)
       | (Inr auth_id, s1) \<Rightarrow> link_author w article_id_last auth_id auth_id_seen s1)"
    using assms(3) by (simp add: author_body_def assms(1,2,5,6))
  have main: "(case ?hit of
            Some existing \<Rightarrow>
              resolve_author w d oid s =
                (Inr (fst existing), s\<lparr>trace := trace s @ [Select AUTHORS conds]\<rparr>)
              \<and> author_body w article_id_last auth_i auth auth_proper_orcid auth_id_seen s =
                  link_author w article_id_last (fst existing) auth_id_seen
                    (s\<lparr>trace := trace s @ [Select AUTHORS conds]\<rparr>)
          | None \<Rightarrow>
              resolve_author w d oid s = (Inr (next_id (db s) AUTHORS), ?new)
              \<and> author_body w article_id_last auth_i auth auth_proper_orcid auth_id_seen s =
                  link_author w article_id_last (next_id (db s) AUTHORS) auth_id_seen ?new)"
    by (cases ?hit) (simp_all add: body res)
  have orcid: "(\<exists>r \<in> set (rows (db s) AUTHORS). map_of (snd r) ''ORCID'' = Some (PStr v)
                \<and> fst (resolve_author w d oid s) = Inr (fst r))
            \<and> db (snd (resolve_author w d oid s)) = db s"
    if o: "oid = Some v"
      and ex: "\<exists>r \<in> set (rows (db s) AUTHORS). map_of (snd r) ''ORCID'' = Some (PStr v)" for v
  proof -
    have c: "conds = [(''ORCID'', PStr v)]" using o by (simp add: assms(7))
    have P: "\<And>r. list_all (sql_eq (snd r)) conds = (map_of (snd r) ''ORCID'' = Some (PStr v))"
      by (simp add: c sql_eq_def)
    from ex have "?hit \<noteq> None" unfolding find_None_iff P by blast
    then obtain r where hit: "?hit = Some r" by auto
    then have r: "r \<in> set (rows (db s) AUTHORS)" "map_of (snd r) ''ORCID'' = Some (PStr v)"
      unfolding find_Some_iff P by (auto simp: in_set_conv_nth)
    from res hit have "resolve_author w d oid s =
        (Inr (fst r), s\<lparr>trace := trace s @ [Select AUTHORS conds]\<rparr>)"
      by simp
    with r show ?thesis by auto
  qed
  from main orcid show ?thesis by blast
qed

theorem resolve_author_cases_witness:
  "fst (resolve_author example_world
          [(''FIRSTNAME'', PStr ''A''), (''LASTNAME'', PStr ''B''), (''ORCID'', PStr ''x'')]
          (Some ''x'') filled_state) = Inr 7
   \<and> db (snd (resolve_author example_world
          [(''FIRSTNAME'', PStr ''A''), (''LASTNAME'', PStr ''B''), (''ORCID'', PStr ''x'')]
          (Some ''x'') filled_state)) = db filled_state
   \<and> fst (resolve_author example_world
          [(''FIRSTNAME'', PStr ''A''), (''LASTNAME'', PStr ''B''), (''ORCID'', PStr ''x'')]
          (Some ''x'') empty_state) = Inr 1
   \<and> author_body example_world 2 0 ''A B'' [Some ''x''] {} filled_state
       = link_author example_world 2 7 {}
           (filled_state\<lparr>trace := [Select AUTHORS [(''ORCID'', PStr ''x'')]]\<rparr>)"
proof -
  let ?a = "[(''FIRSTNAME'', PStr ''A''), (''LASTNAME'', PStr ''B'')]"
  let ?d = "[(''FIRSTNAME'', PStr ''A''), (''LASTNAME'', PStr ''B''), (''ORCID'', PStr ''x'')]"
  let ?c = "[(''ORCID'', PStr ''x'')]"
  have h1: "getSingleAuthorDict ''A B'' = Inr ?a"
    by (simp add: getSingleAuthorDict_def index_last_def bind_err_def)
  have h2: "dict_get ?a ''FIRSTNAME'' = Inr (PStr ''A'')" by (simp add: dict_get_def)
  have h3: "PStr ''A'' \<noteq> PStr []" by simp
  have h4: "dict_get ?a ''LASTNAME'' = Inr (PStr ''B'')" by (simp add: dict_get_def)
  have hi: "index_at [Some ''x''] 0 = Inr (Some ''x'')" by (simp add: index_at_def)
  have h5: "?d = AList.update ''ORCID'' (orcid_val (Some ''x'')) ?a" by (simp add: orcid_val_def)
  have h6: "?c = (case Some ''x'' of Some v \<Rightarrow> [(''ORCID'', PStr v)]
                  | None \<Rightarrow> [(''FIRSTNAME'', PStr ''A''), (''LASTNAME'', PStr ''B'')])"
    by simp
  have f: "\<And>n. \<not> db_fails example_world n" by (simp add: example_world_def)
  note filled = resolve_author_cases[OF h1 h2 h3 h4 hi h5 h6 f f, of filled_state 2 "{}"]
  note empty = resolve_author_cases[OF h1 h2 h3 h4 hi h5 h6 f f, of empty_state 2 "{}"]
  have rf: "rows (db filled_state) AUTHORS
      = [(7, [(''FIRSTNAME'', PStr ''A''), (''LASTNAME'', PStr ''B''), (''ORCID'', PStr ''x'')])]"
    "trace filled_state = []"
    by (simp_all add: filled_state_def empty_state_def)
  have re: "rows (db empty_state) AUTHORS = []" "next_id (db empty_state) AUTHORS = 1"
    by (simp_all add: empty_state_def)
  from filled have 1: "fst (resolve_author example_world ?d (Some ''x'') filled_state) = Inr 7
     \<and> db (snd (resolve_author example_world ?d (Some ''x'') filled_state)) = db filled_state
     \<and> author_body example_world 2 0 ''A B'' [Some ''x''] {} filled_state
       = link_author example_world 2 7 {}
           (filled_state\<lparr>trace := [Select AUTHORS [(''ORCID'', PStr ''x'')]]\<rparr>)"
    by (simp add: rf sql_eq_def)
  from empty have 2: "fst (resolve_author example_world ?d (Some ''x'') empty_state) = Inr 1"
    by (simp add: re)
  from 1 2 show ?thesis by simp
qed

text \<open>
  Claim C5 as stated speaks of every author with a non-empty first name. The names and
  the ORCID iDs come from two selectors; when the list of ORCID iDs is shorter than the
  list of names, \<open>auth_proper_orcid[auth_i]\<close> at line 204 raises \<open>IndexError\<close> for such an
  author before any lookup: no ORCID iD was extracted for the author, and yet no lookup
  by name is made. In the run on such a page the only statements sent are the existence
  check and the insert on \<open>ARTICLES\<close>. And a lookup that the database rejects resolves
  nothing.
\<close>

theorem author_without_orcid_entry:
  "getSingleAuthorDict ''A B'' = Inr [(''FIRSTNAME'', PStr ''A''), (''LASTNAME'', PStr ''B'')]
   \<and> fst (author_body example_world 1 0 ''A B'' [] {} empty_state) = Inl IndexError
   \<and> trace (snd (author_body example_world 1 0 ''A B'' [] {} empty_state)) = []
   \<and> trace (snd (crawl short_orcid_world 1 50 empty_state))
       = [Select ARTICLES [(''DOI'', PStr ''a'')],
          Insert ARTICLES [(''TITLE'', PStr ''a  ''), (''DOI'', PStr ''a'')]]
   \<and> fst (author_body (failing_world 0) 1 0 ''A B'' [None] {} empty_state) = Inl DatabaseError"
  by code_simp

section \<open>The two connections\<close>

lemma engine_only_refl: "engine_only s s"
  by (simp add: engine_only_def)

lemma engine_only_trans: "engine_only s s1 \<Longrightarrow> engine_only s1 s2 \<Longrightarrow> engine_only s s2"
  by (simp add: engine_only_def)

lemma execute_engine_only: "engine_only s (snd (execute w op s))"
  by (simp add: execute_def engine_only_def)

lemma select_first_engine_only: "engine_only s (snd (select_first w DB conds s))"
  by (simp add: select_first_def execute_def engine_only_def split: prod.splits sum.splits)

lemma myInsert_engine_only: "engine_only s (snd (myInsert w entry DB rm tr s))"
  by (simp add: myInsert_def execute_def engine_only_def Let_def)

lemma resolve_author_engine_only: "engine_only s (snd (resolve_author w d oid s))"
proof -
  have sf: "\<And>c r s1. select_first w AUTHORS c s = (r, s1) \<Longrightarrow> engine_only s s1"
    using select_first_engine_only[of s w AUTHORS] by (metis snd_conv)
  have mi: "\<And>s1. engine_only s s1 \<Longrightarrow> engine_only s (snd (myInsert w d AUTHORS True True s1))"
    using myInsert_engine_only engine_only_trans by blast
  show ?thesis
    unfolding resolve_author_def
    by (auto split: sum.splits prod.splits option.splits simp: engine_only_refl dest!: sf intro: mi)
qed

lemma link_author_engine_only: "engine_only s (snd (link_author w aid a seen s))"
proof -
  have "\<And>e r s1. myInsert w e ARTICLES_AUTHORS False False s = (r, s1) \<Longrightarrow> engine_only s s1"
    using myInsert_engine_only[of s w _ ARTICLES_AUTHORS False False] by (metis snd_conv)
  then show ?thesis
    unfolding link_author_def
    by (auto split: sum.splits prod.splits simp: engine_only_refl)
qed

lemma author_body_engine_only: "engine_only s (snd (author_body w aid i auth orc seen s))"
proof -
  have ra: "\<And>d oid r s1. resolve_author w d oid s = (r, s1) \<Longrightarrow> engine_only s s1"
    using resolve_author_engine_only[of s w] by (metis snd_conv)
  have la: "\<And>a s1. engine_only s s1 \<Longrightarrow> engine_only s (snd (link_author w aid a seen s1))"
    using link_author_engine_only engine_only_trans by blast
  show ?thesis
    unfolding author_body_def
    by (auto split: sum.splits prod.splits simp: engine_only_refl dest!: ra intro: la)
qed

lemma author_loop_engine_only: "engine_only s (snd (author_loop w aid i auths orc seen s))"
proof (induction auths arbitrary: i seen s)
  case Nil
  show ?case by (simp add: engine_only_refl)
next
  case (Cons auth rest)
  obtain r0 s0 where b: "author_body w aid i auth orc seen s = (r0, s0)"
    by (cases "author_body w aid i auth orc seen s") auto
  have e0: "engine_only s s0" using author_body_engine_only[of s w aid i auth orc seen] b by simp
  show ?case
  proof (cases r0)
    case (Inl e)
    with b e0 show ?thesis by simp
  next
    case (Inr seen')
    with b e0 Cons.IH[of s0 "Suc i" seen'] show ?thesis
      by (auto intro: engine_only_trans)
  qed
qed

lemma insert_article_engine_only: "engine_only s (snd (insert_article w e ap orc s))"
proof -
  obtain r0 s0 where m: "myInsert w e ARTICLES True True s = (r0, s0)"
    by (cases "myInsert w e ARTICLES True True s") auto
  have e0: "engine_only s s0" using myInsert_engine_only[of s w e ARTICLES True True] m by simp
  show ?thesis
  proof (cases r0)
    case (Inl x)
    with m e0 show ?thesis by (simp add: insert_article_def)
  next
    case (Inr k)
    with m e0 author_loop_engine_only[of s0 w k 0 ap orc "{}"] show ?thesis
      by (auto simp: insert_article_def intro: engine_only_trans)
  qed
qed

lemma engine_begin_engine_only:
  assumes "\<And>s. engine_only s (snd (body s))"
  shows "engine_only s (snd (engine_begin body s))"
  using assms[of s]
  by (auto simp: engine_begin_def engine_only_def split: prod.splits sum.splits)

lemma engine_begin_rollback:
  "fst (engine_begin body s) = Inl e \<Longrightarrow> db (snd (engine_begin body s)) = db s"
  by (auto simp: engine_begin_def split: prod.splits sum.splits)

lemma word_loop_connector_only: "connector_only s (snd (word_loop w ts s))"
proof (induction ts arbitrary: s)
  case Nil
  show ?case by (simp add: connector_only_def)
next
  case (Cons x xs)
  show ?case
    using Cons.IH[of "s\<lparr>trace := trace s @ [CallProc ''AddOrIncrementWord'' (lower x)],
                       words_pending := words_pending s @ [lower x]\<rparr>"]
    by (simp add: execute_def connector_only_def)
qed

lemma word_loop_committed: "words_committed (snd (word_loop w ts s)) = words_committed s"
proof (induction ts arbitrary: s)
  case Nil
  show ?case by simp
next
  case (Cons x xs)
  show ?case
    using Cons.IH[of "s\<lparr>trace := trace s @ [CallProc ''AddOrIncrementWord'' (lower x)],
                       words_pending := words_pending s @ [lower x]\<rparr>"]
    by (simp add: execute_def)
qed

lemma connector_commit_connector_only: "connector_only s (snd (connector_commit w s))"
  by (simp add: connector_commit_def execute_def connector_only_def)

lemma connector_commit_failed:
  "fst (connector_commit w s) = Inl e \<Longrightarrow> words_committed (snd (connector_commit w s)) = words_committed s"
  by (simp add: connector_commit_def execute_def split: if_splits)


lemma resolve_author_articles:
  "rows (db (snd (resolve_author w d oid s))) ARTICLES = rows (db s) ARTICLES"
proof -
  have m: "\<And>s1. rows (db (snd (myInsert w d AUTHORS True True s1))) ARTICLES
      = rows (db s1) ARTICLES"
    by (simp add: myInsert_rows split: sum.splits)
  have sf: "\<And>c r s1. select_first w AUTHORS c s = (r, s1) \<Longrightarrow> db s1 = db s"
    using select_first_db[of w AUTHORS _ s] by (metis snd_conv)
  show ?thesis
    unfolding resolve_author_def
    by (auto split: sum.splits prod.splits option.splits simp: m dest: sf)
qed

lemma link_author_articles:
  "rows (db (snd (link_author w aid a seen s))) ARTICLES = rows (db s) ARTICLES"
proof -
  have "rows (db s1) ARTICLES = rows (db s) ARTICLES"
    if "myInsert w e ARTICLES_AUTHORS False False s = (r, s1)" for e r s1
    using myInsert_rows[of w e ARTICLES_AUTHORS False False s ARTICLES] that
    by (auto split: sum.splits)
  then show ?thesis
    unfolding link_author_def
    by (auto split: sum.splits prod.splits)
qed

lemma author_body_articles:
  "rows (db (snd (author_body w aid i auth orc seen s))) ARTICLES = rows (db s) ARTICLES"
proof -
  have ra: "\<And>d oid r s1. resolve_author w d oid s = (r, s1)
      \<Longrightarrow> rows (db s1) ARTICLES = rows (db s) ARTICLES"
    using resolve_author_articles[of w _ _ s] by (metis snd_conv)
  show ?thesis
    unfolding author_body_def
    by (auto split: sum.splits prod.splits simp: link_author_articles dest!: ra)
qed

lemma author_loop_articles:
  "rows (db (snd (author_loop w aid i auths orc seen s))) ARTICLES = rows (db s) ARTICLES"
proof (induction auths arbitrary: i seen s)
  case Nil
  show ?case by simp
next
  case (Cons auth rest)
  obtain r0 s0 where b: "author_body w aid i auth orc seen s = (r0, s0)"
    by (cases "author_body w aid i auth orc seen s") auto
  have e0: "rows (db s0) ARTICLES = rows (db s) ARTICLES"
    using author_body_articles[of w aid i auth orc seen s] b by simp
  show ?case
  proof (cases r0)
    case (Inl e)
    with b e0 show ?thesis by simp
  next
    case (Inr seen')
    with b e0 Cons.IH[of "Suc i" seen' s0] show ?thesis by simp
  qed
qed

lemma committed_article_row:
  assumes "engine_begin (insert_article w e ap orc) s = (Inr u, s1)"
  shows "rows (db s1) ARTICLES = rows (db s) ARTICLES
           @ [(next_id (db s) ARTICLES, truncateEntries (removeNones e) (columns w ARTICLES))]"
proof -
  obtain r0 s0 where m: "myInsert w e ARTICLES True True s = (r0, s0)"
    by (cases "myInsert w e ARTICLES True True s") auto
  show ?thesis
  proof (cases r0)
    case (Inl x)
    with assms m show ?thesis by (auto simp: engine_begin_def insert_article_def)
  next
    case (Inr k)
    have k: "k = next_id (db s) ARTICLES" using m Inr by (auto dest: myInsert_key)
    have r0: "rows (db s0) ARTICLES = rows (db s) ARTICLES
           @ [(k, truncateEntries (removeNones e) (columns w ARTICLES))]"
      using myInsert_rows[of w e ARTICLES True True s ARTICLES] m Inr by simp
    from assms m Inr have "s1 = snd (author_loop w k 0 ap orc {} s0)"
      by (auto simp: engine_begin_def insert_article_def split: prod.splits sum.splits)
    then show ?thesis using author_loop_articles[of w k 0 ap orc "{}" s0] r0 k by simp
  qed
qed

lemma failed_insert_no_count:
  assumes "fst (engine_begin (insert_article w e ap orc) s) = Inl err"
  shows "insert_and_count w e ap orc s = engine_begin (insert_article w e ap orc) s"
    and "db (snd (insert_and_count w e ap orc s)) = db s"
    and "words_pending (snd (insert_and_count w e ap orc s)) = words_pending s"
    and "words_committed (snd (insert_and_count w e ap orc s)) = words_committed s"
proof -
  show eq: "insert_and_count w e ap orc s = engine_begin (insert_article w e ap orc) s"
    using assms by (auto simp: insert_and_count_def split: prod.splits sum.splits)
  show "db (snd (insert_and_count w e ap orc s)) = db s"
    unfolding eq using assms by (rule engine_begin_rollback)
  have "engine_only s (snd (engine_begin (insert_article w e ap orc) s))"
    by (rule engine_begin_engine_only) (rule insert_article_engine_only)
  then show "words_pending (snd (insert_and_count w e ap orc s)) = words_pending s"
    and "words_committed (snd (insert_and_count w e ap orc s)) = words_committed s"
    unfolding eq by (simp_all add: engine_only_def)
qed

lemma failed_count_keeps_article:
  assumes "engine_begin (insert_article w e ap orc) s = (Inr u, s1)"
    and "fst (insert_and_count w e ap orc s) = Inl err"
  shows "db (snd (insert_and_count w e ap orc s)) = db s1"
    and "words_committed (snd (insert_and_count w e ap orc s)) = words_committed s"
proof -
  have e1: "engine_only s s1"
    using engine_begin_engine_only[of "insert_article w e ap orc" s, OF insert_article_engine_only]
      assms(1) by simp
  have "db (snd (insert_and_count w e ap orc s)) = db s1
     \<and> words_committed (snd (insert_and_count w e ap orc s)) = words_committed s"
  proof (cases "title_words e")
    case (Inl x)
    with assms(1) have "snd (insert_and_count w e ap orc s) = s1"
      by (simp add: insert_and_count_def)
    with e1 show ?thesis by (simp add: engine_only_def)
  next
    case tw: (Inr ts)
    obtain r2 s2 where wl: "word_loop w ts s1 = (r2, s2)" by (cases "word_loop w ts s1") auto
    have c2: "connector_only s1 s2" "words_committed s2 = words_committed s1"
      using word_loop_connector_only[of s1 w ts] word_loop_committed[of w ts s1] wl by simp_all
    show ?thesis
    proof (cases r2)
      case (Inl x)
      with assms(1) tw wl have "snd (insert_and_count w e ap orc s) = s2"
        by (simp add: insert_and_count_def)
      with c2 e1 show ?thesis by (simp add: connector_only_def engine_only_def)
    next
      case (Inr x)
      with assms(1) tw wl have ic: "insert_and_count w e ap orc s = connector_commit w s2"
        by (simp add: insert_and_count_def)
      with assms(2) have "fst (connector_commit w s2) = Inl err" by simp
      from connector_commit_failed[OF this] connector_commit_connector_only[of s2 w] c2 e1 ic
      show ?thesis by (simp add: connector_only_def engine_only_def)
    qed
  qed
  then show "db (snd (insert_and_count w e ap orc s)) = db s1"
    and "words_committed (snd (insert_and_count w e ap orc s)) = words_committed s"
    by simp_all
qed

text \<open>
  Claim C9, as the code has it. The word count of an article starts only after the
  transaction of its rows has been committed. When that transaction fails, the
  \<open>try\<close> block ends there: the tables are rolled back and no word of the title is
  counted, pending or committed. When the transaction has been committed and the word
  count or its commit fails, the article's row stays in \<open>ARTICLES\<close> and nothing is added
  to the committed word counts.
\<close>

theorem word_count_follows_commit:
  "(fst (engine_begin (insert_article w e ap orc) s) = Inl err \<longrightarrow>
       insert_and_count w e ap orc s = engine_begin (insert_article w e ap orc) s
     \<and> db (snd (insert_and_count w e ap orc s)) = db s
     \<and> words_pending (snd (insert_and_count w e ap orc s)) = words_pending s
     \<and> words_committed (snd (insert_and_count w e ap orc s)) = words_committed s)
   \<and> (engine_begin (insert_article w e ap orc) s = (Inr u, s1)
       \<and> fst (insert_and_count w e ap orc s) = Inl err \<longrightarrow>
       db (snd (insert_and_count w e ap orc s)) = db s1
     \<and> rows (db (snd (insert_and_count w e ap orc s))) ARTICLES = rows (db s) ARTICLES
           @ [(next_id (db s) ARTICLES, truncateEntries (removeNones e) (columns w ARTICLES))]
     \<and> words_committed (snd (insert_and_count w e ap orc s)) = words_committed s)"
  using failed_insert_no_count[of w e ap orc s err]
    failed_count_keeps_article[of w e ap orc s u s1 err]
    committed_article_row[of w e ap orc s u s1]
  by auto

theorem word_count_follows_commit_witness:
  "rows (db (snd (insert_and_count (failing_world 1) [(''TITLE'', PStr ''a  b'')] [] []
                    empty_state))) ARTICLES
     = [(1, [(''TITLE'', PStr ''a  '')])]
   \<and> words_committed (snd (insert_and_count (failing_world 1) [(''TITLE'', PStr ''a  b'')] [] []
                    empty_state)) = []
   \<and> words_pending (snd (insert_and_count (failing_world 0) [(''TITLE'', PStr ''a  b'')] [] []
                    empty_state)) = []"
proof -
  let ?e = "[(''TITLE'', PStr ''a  b'')]"
  let ?tx = "\<lambda>n. engine_begin (insert_article (failing_world n) ?e [] []) empty_state"
  have f1: "fst (?tx 1) = Inr ()" by code_simp
  have h1: "?tx 1 = (Inr (), snd (?tx 1))" using f1 by (metis prod.collapse)
  have h2: "fst (insert_and_count (failing_world 1) ?e [] [] empty_state) = Inl DatabaseError"
    by code_simp
  have h0: "fst (?tx 0) = Inl DatabaseError" by code_simp
  have ev: "rows (db empty_state) ARTICLES
       @ [(next_id (db empty_state) ARTICLES,
           truncateEntries (removeNones ?e) (columns (failing_world 1) ARTICLES))]
      = [(1, [(''TITLE'', PStr ''a  '')])]"
    by code_simp
  have em: "words_committed empty_state = []" "words_pending empty_state = []"
    by (simp_all add: empty_state_def)
  note a = word_count_follows_commit[of "failing_world 1" ?e "[]" "[]" empty_state
      DatabaseError "()" "snd (?tx 1)"]
  note b = word_count_follows_commit[of "failing_world 0" ?e "[]" "[]" empty_state
      DatabaseError "()" "snd (?tx 0)"]
  from a h1 h2 have "rows (db (snd (insert_and_count (failing_world 1) ?e [] [] empty_state)))
        ARTICLES = rows (db empty_state) ARTICLES
       @ [(next_id (db empty_state) ARTICLES,
           truncateEntries (removeNones ?e) (columns (failing_world 1) ARTICLES))]
    \<and> words_committed (snd (insert_and_count (failing_world 1) ?e [] [] empty_state))
        = words_committed empty_state"
    by blast
  then have 1: "rows (db (snd (insert_and_count (failing_world 1) ?e [] [] empty_state)))
        ARTICLES = [(1, [(''TITLE'', PStr ''a  '')])]
    \<and> words_committed (snd (insert_and_count (failing_world 1) ?e [] [] empty_state)) = []"
    by (simp only: ev em)
  from b h0 have "words_pending (snd (insert_and_count (failing_world 0) ?e [] [] empty_state))
      = words_pending empty_state"
    by blast
  then have 2: "words_pending (snd (insert_and_count (failing_world 0) ?e [] [] empty_state))
      = []"
    by (simp only: em)
  from 1 2 show ?thesis by simp
qed

text \<open>
  Claim C9 as stated also lets a failure leave title tokens counted for an article
  whose insert failed. No run does that: whenever the transaction of an article does
  not end normally, its word count leaves both the pending and the committed counts as
  they were.
\<close>

theorem no_count_for_failed_insert:
  "\<not> (\<exists>w e ap orc s.
        fst (engine_begin (insert_article w e ap orc) s) \<noteq> Inr ()
      \<and> (words_pending (snd (insert_and_count w e ap orc s)) \<noteq> words_pending s
         \<or> words_committed (snd (insert_and_count w e ap orc s)) \<noteq> words_committed s))"
proof
  assume "\<exists>w e ap orc s.
        fst (engine_begin (insert_article w e ap orc) s) \<noteq> Inr ()
      \<and> (words_pending (snd (insert_and_count w e ap orc s)) \<noteq> words_pending s
         \<or> words_committed (snd (insert_and_count w e ap orc s)) \<noteq> words_committed s)"
  then obtain w e ap orc s where
    f: "fst (engine_begin (insert_article w e ap orc) s) \<noteq> Inr ()"
    and c: "words_pending (snd (insert_and_count w e ap orc s)) \<noteq> words_pending s
         \<or> words_committed (snd (insert_and_count w e ap orc s)) \<noteq> words_committed s"
    by blast
  from f obtain err where "fst (engine_begin (insert_article w e ap orc) s) = Inl err"
    by (cases "fst (engine_begin (insert_article w e ap orc) s)") auto
  from failed_insert_no_count(3,4)[OF this] c show False by simp
qed

section \<open>A card without a title link\<close>

lemma title_error: "title el = Inl e \<Longrightarrow> e = IndexError"
  by (auto simp: title_def index_at_def bind_err_def split: if_splits)

lemma extract_detail_index_error:
  assumes "title el = Inl IndexError \<or> title_link el = Inl IndexError"
  shows "extract_detail w el = Inl IndexError"
proof (cases "title el")
  case (Inl e)
  then show ?thesis using title_error[OF Inl] by (simp add: extract_detail_def bind_err_def)
next
  case (Inr t)
  with assms have "title_link el = Inl IndexError" by simp
  with Inr show ?thesis by (simp add: extract_detail_def bind_err_def)
qed

text \<open>
  Claim C1, as the code has it. When the title or the link of a card raises
  \<open>IndexError\<close>, the handler is \<open>continue\<close>: nothing is inserted or printed for that card,
  the exception goes no further, and the loop goes on with the next card of the page.
\<close>

theorem index_error_skips_card:
  assumes "title el = Inl IndexError \<or> title_link el = Inl IndexError"
  shows "extraction_stage w el s = (Continue, s)
     \<and> (i < 1000 \<longrightarrow>
          article_loop w page_num i (el # els) s
            = article_loop w page_num (Suc i) els (print_line (OutArticle i) s))"
  using extract_detail_index_error[OF assms]
  by (simp add: extraction_stage_def handle_extraction_error_def)

theorem index_error_skips_card_witness:
  "title example_card_no_link = Inl IndexError
   \<and> extraction_stage example_world example_card_no_link empty_state = (Continue, empty_state)
   \<and> article_loop example_world 1 0 [example_card_no_link, example_card] empty_state
       = article_loop example_world 1 1 [example_card] (print_line (OutArticle 0) empty_state)"
proof -
  have t: "title example_card_no_link = Inl IndexError"
    by (simp add: title_def example_card_no_link_def index_at_def bind_err_def)
  then have h: "title example_card_no_link = Inl IndexError
      \<or> title_link example_card_no_link = Inl IndexError" by simp
  from index_error_skips_card[OF h, of example_world empty_state 0 1 "[example_card]"] t
  show ?thesis by simp
qed

text \<open>
  Claim C1 as stated has the rest of the page abandoned. On a page whose first card
  has no title link and whose second card is a new article, the second card is
  processed and its row inserted.
\<close>

theorem index_error_next_card_inserted:
  "title example_card_no_link = Inl IndexError
   \<and> rows (db (snd (article_loop example_world 1 0 [example_card_no_link, example_card]
                      empty_state))) ARTICLES
       = [(1, [(''TITLE'', PStr ''a  ''), (''DOI'', PStr ''a'')])]"
  by code_simp

section \<open>The pagination loop\<close>

lemma loop_lines_append: "loop_lines (a @ b) = loop_lines a @ loop_lines b"
  by (simp add: loop_lines_def)



















end
